theory Spec2Isabelle
  imports Main "HOL-Library.Sublist"
begin

chapter \<open>The model\<close>

section \<open>Strings as the program sees them\<close>

text \<open>
  Source text is a list of 8-bit characters. The classes \<open>\w\<close> and \<open>\s\<close> of the regular
  expressions, \<open>trim\<close>, \<open>split\<close>, \<open>includes\<close>, \<open>startsWith\<close>, \<open>endsWith\<close> and the case
  conversions are written out below. \<open>toLowerCase\<close> and \<open>toUpperCase\<close> convert the ASCII
  letters and leave every other character as it is, which is what JavaScript does on ASCII
  text; no fact below depends on the conversion of any other character.
\<close>

definition is_word :: "char \<Rightarrow> bool" where
  "is_word c = (let n = (of_char c :: nat) in
     (48 \<le> n \<and> n \<le> 57) \<or> (65 \<le> n \<and> n \<le> 90) \<or> n = 95 \<or> (97 \<le> n \<and> n \<le> 122))"

definition is_space :: "char \<Rightarrow> bool" where
  "is_space c = (let n = (of_char c :: nat) in (9 \<le> n \<and> n \<le> 13) \<or> n = 32 \<or> n = 160)"

definition to_lower :: "char \<Rightarrow> char" where
  "to_lower c = (let n = (of_char c :: nat) in if 65 \<le> n \<and> n \<le> 90 then char_of (n + 32) else c)"

definition to_upper :: "char \<Rightarrow> char" where
  "to_upper c = (let n = (of_char c :: nat) in if 97 \<le> n \<and> n \<le> 122 then char_of (n - 32) else c)"

definition toLowerCase :: "string \<Rightarrow> string" where
  "toLowerCase s = map to_lower s"

definition toUpperCase :: "string \<Rightarrow> string" where
  "toUpperCase s = map to_upper s"

fun starts_with :: "string \<Rightarrow> string \<Rightarrow> bool" where
  "starts_with [] s = True"
| "starts_with (p # ps) [] = False"
| "starts_with (p # ps) (c # cs) = (p = c \<and> starts_with ps cs)"

definition startsWith :: "string \<Rightarrow> string \<Rightarrow> bool" where
  "startsWith s p = starts_with p s"

definition endsWith :: "string \<Rightarrow> string \<Rightarrow> bool" where
  "endsWith s p = starts_with (rev p) (rev s)"

fun str_includes :: "string \<Rightarrow> string \<Rightarrow> bool" where
  "str_includes [] p = (p = [])"
| "str_includes (c # cs) p = (starts_with p (c # cs) \<or> str_includes cs p)"

definition trimStart :: "string \<Rightarrow> string" where
  "trimStart s = dropWhile is_space s"

definition trim :: "string \<Rightarrow> string" where
  "trim s = rev (dropWhile is_space (rev (dropWhile is_space s)))"

fun split_on :: "char \<Rightarrow> string \<Rightarrow> string list" where
  "split_on d [] = [[]]"
| "split_on d (c # cs) =
     (if c = d then [] # split_on d cs
      else (case split_on d cs of [] \<Rightarrow> [[c]] | l # ls \<Rightarrow> (c # l) # ls))"

definition split_lines :: "string \<Rightarrow> string list" where
  "split_lines s = split_on (CHR ''\<newline>'') s"

definition slice :: "string \<Rightarrow> nat \<Rightarrow> nat \<Rightarrow> string" where
  "slice s a b = take (b - a) (drop a s)"

text \<open>\<open>s.replace(p, r)\<close> with a string pattern: the first occurrence only.\<close>

fun replace_first :: "string \<Rightarrow> string \<Rightarrow> string \<Rightarrow> string" where
  "replace_first p r [] = (if p = [] then r else [])"
| "replace_first p r (c # cs) =
     (if starts_with p (c # cs) then r @ drop (length p) (c # cs)
      else c # replace_first p r cs)"

text \<open>Template literals print a line number in decimal.\<close>

definition digit_char :: "nat \<Rightarrow> char" where
  "digit_char d = char_of (48 + d)"

fun show_nat_aux :: "nat \<Rightarrow> nat \<Rightarrow> string \<Rightarrow> string" where
  "show_nat_aux 0 n acc = acc"
| "show_nat_aux (Suc f) n acc =
     (if n < 10 then digit_char n # acc
      else show_nat_aux f (n div 10) (digit_char (n mod 10) # acc))"

definition show_nat :: "nat \<Rightarrow> string" where
  "show_nat n = show_nat_aux (Suc n) n []"

text \<open>\<open>a || b\<close> on strings: an undefined or empty \<open>a\<close> gives \<open>b\<close>.\<close>

fun or_else :: "string option \<Rightarrow> string \<Rightarrow> string" where
  "or_else None d = d"
| "or_else (Some s) d = (if s = [] then d else s)"

section \<open>Regular expressions\<close>

text \<open>
  The patterns of the program use literals, character classes, groups, alternation, \<open>^\<close>
  and the greedy quantifiers \<open>?\<close>, \<open>*\<close>, \<open>+\<close>. A pattern is a value of \<open>rx\<close>.
  \<open>rm r b s\<close> lists every way \<open>r\<close> can match a prefix of \<open>s\<close>, in the order a backtracking
  matcher tries them, so the head of the list is the match that \<open>RegExp.prototype.exec\<close>
  reports at that position. Each way is the text consumed, the text left and the groups
  captured (latest first). \<open>b\<close> tells whether \<open>s\<close> is the whole input, which is where \<open>^\<close>
  (without the \<open>m\<close> flag) matches. A greedy star puts the longer iterations first and
  refuses an iteration that consumes nothing. No pattern of the program has a capture group
  under a star, so captures are never reset.
\<close>

datatype atom = AWord | ASpace | AChar char

fun in_atom :: "atom \<Rightarrow> char \<Rightarrow> bool" where
  "in_atom AWord c = is_word c"
| "in_atom ASpace c = is_space c"
| "in_atom (AChar d) c = (c = d)"

datatype rx = Lit string | In "atom list" | NotIn "atom list" | Bol
  | Seq rx rx | Alt rx rx | Opt rx | Star rx | Plus rx | Grp nat rx

type_synonym caps = "(nat \<times> string) list"
type_synonym way = "string \<times> string \<times> caps"

fun weight :: "rx \<Rightarrow> nat" where
  "weight (Seq a b) = Suc (weight a + weight b)"
| "weight (Alt a b) = Suc (weight a + weight b)"
| "weight (Opt a) = Suc (weight a)"
| "weight (Star a) = Suc (weight a)"
| "weight (Plus a) = Suc (Suc (weight a))"
| "weight (Grp k a) = Suc (weight a)"
| "weight (Lit l) = 0"
| "weight (In as) = 0"
| "weight (NotIn as) = 0"
| "weight Bol = 0"

definition after :: "way \<Rightarrow> way \<Rightarrow> way" where
  "after w1 w2 = (fst w1 @ fst w2, fst (snd w2), snd (snd w2) @ snd (snd w1))"

text \<open>\<open>then_match f b w\<close>: after the way \<open>w\<close>, go on with the matcher \<open>f\<close> on the text left.\<close>

definition then_match :: "(bool \<Rightarrow> string \<Rightarrow> way list) \<Rightarrow> bool \<Rightarrow> way \<Rightarrow> way list" where
  "then_match f b w = map (after w) (f (b \<and> fst w = []) (fst (snd w)))"

lemma then_match_cong [fundef_cong]:
  "b = b' \<Longrightarrow> w = w' \<Longrightarrow> (\<And>c. f c (fst (snd w')) = g c (fst (snd w'))) \<Longrightarrow>
     then_match f b w = then_match g b' w'"
  by (simp add: then_match_def)

function rm :: "rx \<Rightarrow> bool \<Rightarrow> string \<Rightarrow> way list" where
  "rm (Lit l) b s = (if starts_with l s then [(l, drop (length l) s, [])] else [])"
| "rm (In as) b s =
     (case s of [] \<Rightarrow> []
      | x # t \<Rightarrow> if list_ex (\<lambda>a. in_atom a x) as then [([x], t, [])] else [])"
| "rm (NotIn as) b s =
     (case s of [] \<Rightarrow> []
      | x # t \<Rightarrow> if list_ex (\<lambda>a. in_atom a x) as then [] else [([x], t, [])])"
| "rm Bol b s = (if b then [([], s, [])] else [])"
| "rm (Seq p q) b s = concat (map (then_match (rm q) b) (rm p b s))"
| "rm (Alt p q) b s = rm p b s @ rm q b s"
| "rm (Opt p) b s = rm p b s @ [([], s, [])]"
| "rm (Star p) b s =
     concat (map (then_match (rm (Star p)) False)
       (filter (\<lambda>w. length (fst (snd w)) < length s) (rm p b s))) @ [([], s, [])]"
| "rm (Plus p) b s = concat (map (then_match (rm (Star p)) b) (rm p b s))"
| "rm (Grp k p) b s = map (\<lambda>w. (fst w, fst (snd w), (k, fst w) # snd (snd w))) (rm p b s)"
  by pat_completeness auto
termination
  by (relation "inv_image (measure weight <*lex*> measure length) (\<lambda>(r, b, s). (r, s))") auto

text \<open>
  A match object: \<open>index\<close>, the matched text \<open>match[0]\<close>, the groups, and the input after
  the match (where a global search resumes). \<open>search r i b s\<close> looks for the leftmost
  match in \<open>s\<close>, the part of the input from index \<open>i\<close> on.
\<close>

record rmatch =
  m_index :: nat
  m_text :: string
  m_groups :: caps
  m_rest :: string

fun search :: "rx \<Rightarrow> nat \<Rightarrow> bool \<Rightarrow> string \<Rightarrow> rmatch option" where
  "search r i b [] =
     (case rm r b [] of [] \<Rightarrow> None
      | w # _ \<Rightarrow> Some \<lparr>m_index = i, m_text = fst w, m_groups = snd (snd w), m_rest = fst (snd w)\<rparr>)"
| "search r i b (x # t) =
     (case rm r b (x # t) of [] \<Rightarrow> search r (Suc i) False t
      | w # _ \<Rightarrow> Some \<lparr>m_index = i, m_text = fst w, m_groups = snd (snd w), m_rest = fst (snd w)\<rparr>)"

definition exec :: "rx \<Rightarrow> string \<Rightarrow> rmatch option" where
  "exec r s = search r 0 True s"

definition test :: "rx \<Rightarrow> string \<Rightarrow> bool" where
  "test r s = (exec r s \<noteq> None)"

text \<open>
  Every match of a global pattern, left to right: the \<open>while ((m = p.exec(s)) !== null)\<close>
  loop and \<open>matchAll\<close>. The search resumes where the last match ended (one character
  further after an empty match, as \<open>matchAll\<close> does; the patterns iterated by an \<open>exec\<close>
  loop start with a literal or \<open>\w+\<close> and never match the empty string). The test that
  the text left got shorter is always true (\<open>search_shorter\<close> below); it is what makes the
  recursion well-founded.
\<close>

function exec_all_from :: "rx \<Rightarrow> nat \<Rightarrow> bool \<Rightarrow> string \<Rightarrow> rmatch list" where
  "exec_all_from r i b s =
     (case search r i b s of
        None \<Rightarrow> []
      | Some m \<Rightarrow>
          (if m_text m = [] then
             (if m_rest m \<noteq> [] \<and> length (m_rest m) \<le> length s
              then m # exec_all_from r (Suc (m_index m)) False (tl (m_rest m)) else [m])
           else
             (if length (m_rest m) < length s
              then m # exec_all_from r (m_index m + length (m_text m)) False (m_rest m)
              else [m])))"
  by pat_completeness auto
termination
proof (relation "measure (\<lambda>(r, i, b, s). length s)", goal_cases)
  case 1
  show ?case by simp
next
  case (2 r i b s m)
  then show ?case by (cases "m_rest m") auto
next
  case (3 r i b s m)
  then show ?case by simp
qed

definition exec_all :: "rx \<Rightarrow> string \<Rightarrow> rmatch list" where
  "exec_all r s = exec_all_from r 0 True s"

text \<open>\<open>match[k]\<close>: the text of group \<open>k\<close>, \<open>None\<close> when the group took no part.\<close>

definition grp :: "rmatch \<Rightarrow> nat \<Rightarrow> string option" where
  "grp m k = map_of (m_groups m) k"

section \<open>The project on disk\<close>

text \<open>
  A directory listing, as \<open>readdirSync(dir, {withFileTypes: true})\<close> gives it: files with
  their text (\<open>None\<close> for a file that \<open>readFileSync\<close> cannot read), directories with their
  own listing (\<open>None\<close> for a directory that \<open>readdirSync\<close> cannot read) and entries that
  are neither (links, sockets). A project is a path and the listing found there.
  \<open>join(dir, name)\<close> is written for a normalised \<open>dir\<close> without a trailing separator.
\<close>

datatype dirent = File string "string option" | Dir string "dirent list option" | Other string

record project =
  proj_path :: string
  proj_listing :: "dirent list option"

datatype error = ReadError string | RouteNotFound string

definition join :: "string \<Rightarrow> string \<Rightarrow> string" where
  "join dir name = dir @ ''/'' @ name"

function all_files :: "string \<Rightarrow> dirent list option \<Rightarrow> (string \<times> string option) list" where
  "all_files dir None = []"
| "all_files dir (Some items) =
     concat (map (\<lambda>item. case item of
         File n c \<Rightarrow> [(join dir n, c)]
       | Dir n sub \<Rightarrow> all_files (join dir n) sub
       | Other n \<Rightarrow> []) items)"
  by pat_completeness auto
termination
  by (relation "measure (\<lambda>(d, l). size_option (size_list size) l)")
     (auto simp: less_Suc_eq_le size_list_estimation')

text \<open>\<open>readFileSync(path, 'utf-8')\<close>: \<open>None\<close> stands for the exception it throws.\<close>

definition readFileSync :: "project \<Rightarrow> string \<Rightarrow> string option" where
  "readFileSync p path =
     (case map_of (all_files (proj_path p) (proj_listing p)) path of
        Some (Some content) \<Rightarrow> Some content
      | _ \<Rightarrow> None)"

section \<open>File discovery\<close>

text \<open>
  \<open>getGoFilesRecursive\<close> (apiFlowUtils) and \<open>getGoFiles\<close> (goUtils). The second argument is
  what \<open>readdirSync(dir)\<close> returns; \<open>None\<close> is the exception, which the function catches
  and answers with no files.
\<close>

function getGoFilesRecursive :: "string \<Rightarrow> dirent list option \<Rightarrow> string list" where
  "getGoFilesRecursive dir None = []"
| "getGoFilesRecursive dir (Some items) =
     concat (map (\<lambda>item. case item of
         Dir n sub \<Rightarrow>
           if \<not> startsWith n ''.'' \<and> n \<noteq> ''vendor'' \<and> n \<noteq> ''node_modules''
           then getGoFilesRecursive (join dir n) sub else []
       | File n c \<Rightarrow>
           if endsWith n ''.go'' \<and> \<not> endsWith n ''_test.go'' then [join dir n] else []
       | Other n \<Rightarrow> []) items)"
  by pat_completeness auto
termination
  by (relation "measure (\<lambda>(d, l). size_option (size_list size) l)")
     (auto simp: less_Suc_eq_le size_list_estimation')

function getGoFiles :: "string \<Rightarrow> dirent list option \<Rightarrow> string list" where
  "getGoFiles dir None = []"
| "getGoFiles dir (Some items) =
     concat (map (\<lambda>item. case item of
         Dir n sub \<Rightarrow>
           if \<not> startsWith n ''.'' \<and> n \<noteq> ''vendor''
           then getGoFiles (join dir n) sub else []
       | File n c \<Rightarrow>
           if endsWith n ''.go'' \<and> \<not> endsWith n ''_test.go'' then [join dir n] else []
       | Other n \<Rightarrow> []) items)"
  by pat_completeness auto
termination
  by (relation "measure (\<lambda>(d, l). size_option (size_list size) l)")
     (auto simp: less_Suc_eq_le size_list_estimation')

section \<open>Route discovery (apiFlowUtils)\<close>

record APIRoute =
  r_id :: string
  r_method :: string
  r_path :: string
  r_handler :: string
  r_handlerFile :: string
  r_handlerLine :: nat
  r_codeSnippet :: string

datatype framework = Mux | Gin | Echo | Chi | Http

fun seq :: "rx list \<Rightarrow> rx" where
  "seq [] = Lit []"
| "seq [r] = r"
| "seq (r # rs) = Seq r (seq rs)"

fun alt :: "rx list \<Rightarrow> rx" where
  "alt [] = Lit []"
| "alt [r] = r"
| "alt (r # rs) = Alt r (alt rs)"

definition word_plus :: rx where
  "word_plus = Plus (In [AWord])"

definition spaces :: rx where
  "spaces = Star (In [ASpace])"

definition not_quote_plus :: rx where
  \<open>not_quote_plus = Plus (NotIn [AChar (CHR ''"'')])\<close>

definition not_paren_plus :: rx where
  "not_paren_plus = Plus (NotIn [AChar (CHR '')'')])"

definition not_paren_star :: rx where
  "not_paren_star = Star (NotIn [AChar (CHR '')'')])"

text \<open>
  \<^verbatim>\<open>/(\w+)\.Handle\("([^"]+)",\s*([^)]+)\)(?:\.Methods\("([^"]+)"\))?/g\<close>,
  \<^verbatim>\<open>/(\w+)\.HandleFunc\("([^"]+)",\s*([^)]+)\)(?:\.Methods\("([^"]+)"\))?/g\<close>,
  \<^verbatim>\<open>/(\w+)\.PathPrefix\("([^"]+)"\)\.Subrouter\(\)/g\<close>
\<close>

definition muxPatterns :: "rx list" where
  \<open>muxPatterns =
    [seq [Grp 1 word_plus, Lit ''.Handle("'', Grp 2 not_quote_plus, Lit ''",'', spaces,
          Grp 3 not_paren_plus, Lit '')'',
          Opt (seq [Lit ''.Methods("'', Grp 4 not_quote_plus, Lit ''")''])],
     seq [Grp 1 word_plus, Lit ''.HandleFunc("'', Grp 2 not_quote_plus, Lit ''",'', spaces,
          Grp 3 not_paren_plus, Lit '')'',
          Opt (seq [Lit ''.Methods("'', Grp 4 not_quote_plus, Lit ''")''])],
     seq [Grp 1 word_plus, Lit ''.PathPrefix("'', Grp 2 not_quote_plus,
          Lit ''").Subrouter()'']]\<close>

text \<open>
  \<^verbatim>\<open>/(\w+)\.(GET|POST|PUT|DELETE|PATCH)\("([^"]+)",\s*([^)]+)\)/g\<close>,
  \<^verbatim>\<open>/(\w+)\.Handle\("(GET|POST|PUT|DELETE|PATCH)",\s*"([^"]+)",\s*([^)]+)\)/g\<close>
\<close>

definition verbs :: rx where
  "verbs = alt [Lit ''GET'', Lit ''POST'', Lit ''PUT'', Lit ''DELETE'', Lit ''PATCH'']"

definition ginPatterns :: "rx list" where
  \<open>ginPatterns =
    [seq [Grp 1 word_plus, Lit ''.'', Grp 2 verbs, Lit ''("'', Grp 3 not_quote_plus, Lit ''",'',
          spaces, Grp 4 not_paren_plus, Lit '')''],
     seq [Grp 1 word_plus, Lit ''.Handle("'', Grp 2 verbs, Lit ''",'', spaces, Lit ''"'',
          Grp 3 not_quote_plus, Lit ''",'', spaces, Grp 4 not_paren_plus, Lit '')'']]\<close>

definition echoPatterns :: "rx list" where
  \<open>echoPatterns =
    [seq [Grp 1 word_plus, Lit ''.'', Grp 2 verbs, Lit ''("'', Grp 3 not_quote_plus, Lit ''",'',
          spaces, Grp 4 not_paren_plus, Lit '')'']]\<close>

text \<open>\<^verbatim>\<open>/(\w+)\.(Get|Post|Put|Delete|Patch)\("([^"]+)",\s*([^)]+)\)/g\<close>\<close>

definition chiPatterns :: "rx list" where
  \<open>chiPatterns =
    [seq [Grp 1 word_plus, Lit ''.'',
          Grp 2 (alt [Lit ''Get'', Lit ''Post'', Lit ''Put'', Lit ''Delete'', Lit ''Patch'']),
          Lit ''("'', Grp 3 not_quote_plus, Lit ''",'', spaces, Grp 4 not_paren_plus, Lit '')'']]\<close>

text \<open>
  \<^verbatim>\<open>/http\.HandleFunc\("([^"]+)",\s*([^)]+)\)/g\<close>,
  \<^verbatim>\<open>/mux\.HandleFunc\("([^"]+)",\s*([^)]+)\)/g\<close>
\<close>

definition httpPatterns :: "rx list" where
  \<open>httpPatterns =
    [seq [Lit ''http.HandleFunc("'', Grp 1 not_quote_plus, Lit ''",'', spaces,
          Grp 2 not_paren_plus, Lit '')''],
     seq [Lit ''mux.HandleFunc("'', Grp 1 not_quote_plus, Lit ''",'', spaces,
          Grp 2 not_paren_plus, Lit '')'']]\<close>

definition allPatterns :: "(rx \<times> framework) list" where
  "allPatterns =
     map (\<lambda>p. (p, Mux)) muxPatterns @ map (\<lambda>p. (p, Gin)) ginPatterns @
     map (\<lambda>p. (p, Echo)) echoPatterns @ map (\<lambda>p. (p, Chi)) chiPatterns @
     map (\<lambda>p. (p, Http)) httpPatterns"

text \<open>\<open>s.replace(/[^\w]/g, '-')\<close> and \<open>s.replace(/-+/g, '-')\<close>.\<close>

definition dash_non_word :: "string \<Rightarrow> string" where
  "dash_non_word s = map (\<lambda>c. if is_word c then c else CHR ''-'') s"

fun collapse_dashes :: "string \<Rightarrow> string" where
  "collapse_dashes [] = []"
| "collapse_dashes [c] = [c]"
| "collapse_dashes (c # d # s) =
     (if c = CHR ''-'' \<and> d = CHR ''-'' then collapse_dashes (d # s)
      else c # collapse_dashes (d # s))"

definition generateStableRouteId :: "string \<Rightarrow> string \<Rightarrow> string \<Rightarrow> string \<Rightarrow> nat \<Rightarrow> string" where
  "generateStableRouteId meth path handler file line =
     (let cleanMethod = toLowerCase meth;
          cleanedPath = dash_non_word path;
          cleanHandler = dash_non_word handler;
          cleanFile = dash_non_word file
      in collapse_dashes (cleanMethod @ ''-'' @ cleanedPath @ ''-'' @ cleanHandler @ ''-'' @
           cleanFile @ ''-'' @ show_nat line))"

text \<open>\<open>path.replace(/^\/*/, '/').replace(/\/$/, '') || '/'\<close>\<close>

definition cleanPath :: "string \<Rightarrow> string" where
  "cleanPath path =
     (let a = CHR ''/'' # dropWhile (\<lambda>c. c = CHR ''/'') path;
          b = (if last a = CHR ''/'' then butlast a else a)
      in if b = [] then ''/'' else b)"

text \<open>\<open>s.replace(/\s+/g, ' ')\<close> and \<open>lines.join(' ')\<close>.\<close>

fun squeeze_from :: "bool \<Rightarrow> string \<Rightarrow> string" where
  "squeeze_from in_run [] = []"
| "squeeze_from in_run (c # s) =
     (if is_space c then (if in_run then squeeze_from True s else CHR '' '' # squeeze_from True s)
      else c # squeeze_from False s)"

definition squeeze_spaces :: "string \<Rightarrow> string" where
  "squeeze_spaces s = squeeze_from False s"

fun join_with :: "string \<Rightarrow> string list \<Rightarrow> string" where
  "join_with sep [] = []"
| "join_with sep [l] = l"
| "join_with sep (l # ls) = l @ sep @ join_with sep ls"

text \<open>
  \<open>parseRouteMatch\<close>. \<open>None\<close> is the \<open>null\<close> it returns: its \<open>catch\<close> turns the TypeError
  of a method call on an undefined capture into \<open>null\<close> (the PathPrefix pattern has no
  third group, so its matches always end there).
\<close>

definition route_method :: "framework \<Rightarrow> rmatch \<Rightarrow> string option" where
  "route_method fw m =
     (case fw of
        Mux \<Rightarrow> Some (or_else (grp m 4) ''ALL'')
      | Http \<Rightarrow> Some ''ALL''
      | _ \<Rightarrow>
          (if or_else (grp m 2) [] \<noteq> [] then grp m 2
           else (case grp m 1 of
                   None \<Rightarrow> None
                 | Some g \<Rightarrow>
                     Some (or_else (case split_on (CHR ''.'') g of
                                      a # b # bs \<Rightarrow> Some (toUpperCase b)
                                    | _ \<Rightarrow> None) ''GET''))))"

definition route_path :: "framework \<Rightarrow> rmatch \<Rightarrow> string option" where
  "route_path fw m =
     (case fw of Mux \<Rightarrow> grp m 2 | Http \<Rightarrow> grp m 1 | _ \<Rightarrow> grp m 3)"

definition route_handler :: "framework \<Rightarrow> rmatch \<Rightarrow> string option" where
  "route_handler fw m =
     (case fw of Mux \<Rightarrow> grp m 3 | Http \<Rightarrow> grp m 2 | _ \<Rightarrow> grp m 4)"

definition line_of_index :: "string \<Rightarrow> nat \<Rightarrow> nat" where
  "line_of_index content i = length (split_lines (take i content))"

definition handler_name :: "string \<Rightarrow> string" where
  "handler_name handler =
     or_else (Some (last (split_on (CHR ''.'') (filter (\<lambda>c. \<not> is_space c) handler)))) handler"

definition route_snippet :: "string list \<Rightarrow> nat \<Rightarrow> string" where
  "route_snippet lines lineNumber =
     (if 0 < lineNumber \<and> lineNumber \<le> length lines then
        (let codeSnippet = trim (lines ! (lineNumber - 1))
         in if length codeSnippet < 20 \<and> lineNumber < length lines
            then trim (squeeze_spaces (join_with '' ''
                   (take (min (lineNumber + 2) (length lines) - (lineNumber - 1))
                      (drop (lineNumber - 1) lines))))
            else codeSnippet)
      else [])"

definition parseRouteMatch ::
  "rmatch \<Rightarrow> framework \<Rightarrow> string \<Rightarrow> string \<Rightarrow> string list \<Rightarrow> APIRoute option" where
  "parseRouteMatch m fw content relativePath lines =
     (case (route_method fw m, route_path fw m, route_handler fw m) of
        (Some meth, Some path, Some handler) \<Rightarrow>
          (let lineNumber = line_of_index content (m_index m);
               handlerName = handler_name handler;
               routeId = generateStableRouteId meth path handlerName relativePath lineNumber
           in Some \<lparr>r_id = routeId, r_method = toUpperCase meth, r_path = cleanPath path,
                     r_handler = handlerName, r_handlerFile = relativePath,
                     r_handlerLine = lineNumber,
                     r_codeSnippet = route_snippet lines lineNumber\<rparr>)
      | _ \<Rightarrow> None)"

definition discoverRoutesInFile :: "string \<Rightarrow> string \<Rightarrow> string \<Rightarrow> APIRoute list" where
  "discoverRoutesInFile content filePath relativePath =
     (let lines = split_lines content
      in concat (map (\<lambda>(pattern, fw).
           List.map_filter (\<lambda>m. parseRouteMatch m fw content relativePath lines)
             (exec_all pattern content)) allPatterns))"

text \<open>\<open>filePath.replace(projectPath, '').substring(1)\<close>\<close>

definition relative_path :: "string \<Rightarrow> string \<Rightarrow> string" where
  "relative_path projectPath filePath = drop 1 (replace_first projectPath [] filePath)"

text \<open>
  The loop of \<open>discoverAPIRoutesInternal\<close> over the files: \<open>readFileSync\<close> is not guarded
  there, so the first unreadable file ends the discovery with its exception. The package
  name computed in the loop is passed to \<open>discoverRoutesInFile\<close>, which ignores it.
\<close>

fun routes_of_files :: "project \<Rightarrow> string list \<Rightarrow> error + APIRoute list" where
  "routes_of_files p [] = Inr []"
| "routes_of_files p (filePath # rest) =
     (case readFileSync p filePath of
        None \<Rightarrow> Inl (ReadError filePath)
      | Some content \<Rightarrow>
          (case routes_of_files p rest of
             Inl e \<Rightarrow> Inl e
           | Inr routes \<Rightarrow>
               Inr (discoverRoutesInFile content filePath
                      (relative_path (proj_path p) filePath) @ routes)))"

text \<open>
  \<open>routes.filter((route, index, self) => index === self.findIndex(r => r.method ===
  route.method && r.path === route.path))\<close>
\<close>

fun findIndex :: "('a \<Rightarrow> bool) \<Rightarrow> 'a list \<Rightarrow> nat option" where
  "findIndex P [] = None"
| "findIndex P (x # xs) =
     (if P x then Some 0 else (case findIndex P xs of None \<Rightarrow> None | Some i \<Rightarrow> Some (Suc i)))"

definition same_endpoint :: "APIRoute \<Rightarrow> APIRoute \<Rightarrow> bool" where
  "same_endpoint route r = (r_method r = r_method route \<and> r_path r = r_path route)"

definition unique_routes :: "APIRoute list \<Rightarrow> APIRoute list" where
  "unique_routes routes =
     map snd (filter (\<lambda>(index, route). Some index = findIndex (same_endpoint route) routes)
       (zip [0 ..< length routes] routes))"

definition discoverAPIRoutesInternal :: "project \<Rightarrow> error + APIRoute list" where
  "discoverAPIRoutesInternal p =
     (case routes_of_files p (getGoFilesRecursive (proj_path p) (proj_listing p)) of
        Inl e \<Rightarrow> Inl e
      | Inr routes \<Rightarrow> Inr (unique_routes routes))"

definition endpoint :: "APIRoute \<Rightarrow> string \<times> string" where
  "endpoint r = (r_method r, r_path r)"

section \<open>Whole-file analysis (astParser, astHandlers)\<close>

text \<open>
  \<open>ASTParser.parseFile\<close> reads the file and only then opens its \<open>try\<close>: the statements
  after the read (the relative path, the empty structure, \<open>extractComments\<close> and
  \<open>parseGoContent\<close> inside \<open>try\<close>/\<open>catch\<close>) always return a structure and are the
  parameter \<open>parse\<close> here; the exception of \<open>readFileSync\<close> leaves the function. A
  declaration is kept with its name, line and snippet.
\<close>

record Declaration =
  d_name :: string
  d_line :: nat
  d_codeSnippet :: string

record CodeStructure =
  cs_filePath :: string
  cs_packageName :: string
  cs_imports :: "Declaration list"
  cs_types :: "Declaration list"
  cs_constants :: "Declaration list"
  cs_variables :: "Declaration list"
  cs_functions :: "Declaration list"
  cs_structs :: "Declaration list"
  cs_interfaces :: "Declaration list"
  cs_comments :: "Declaration list"

definition parseFile ::
  "(string \<Rightarrow> string \<Rightarrow> string \<Rightarrow> CodeStructure) \<Rightarrow> project \<Rightarrow> string \<Rightarrow> string
     \<Rightarrow> error + CodeStructure" where
  "parseFile parse p filePath projectPath =
     (case readFileSync p filePath of
        None \<Rightarrow> Inl (ReadError filePath)
      | Some content \<Rightarrow> Inr (parse content filePath projectPath))"

text \<open>
  The handler of \<open>ast:analyzeProject\<close>: one \<open>try\<close> around the whole loop, so the first
  exception ends the scan and the handler answers \<open>{success: false, error}\<close>.
\<close>

record ElementCount =
  n_files :: nat
  n_imports :: nat
  n_types :: nat
  n_constants :: nat
  n_variables :: nat
  n_functions :: nat
  n_structs :: nat
  n_interfaces :: nat

definition countTotalElements :: "CodeStructure list \<Rightarrow> ElementCount" where
  "countTotalElements structures =
     \<lparr>n_files = length structures,
      n_imports = sum_list (map (\<lambda>s. length (cs_imports s)) structures),
      n_types = sum_list (map (\<lambda>s. length (cs_types s)) structures),
      n_constants = sum_list (map (\<lambda>s. length (cs_constants s)) structures),
      n_variables = sum_list (map (\<lambda>s. length (cs_variables s)) structures),
      n_functions = sum_list (map (\<lambda>s. length (cs_functions s)) structures),
      n_structs = sum_list (map (\<lambda>s. length (cs_structs s)) structures),
      n_interfaces = sum_list (map (\<lambda>s. length (cs_interfaces s)) structures)\<rparr>"

datatype analysis = Analysed "CodeStructure list" nat ElementCount | AnalysisFailed error

fun parse_files ::
  "(string \<Rightarrow> string \<Rightarrow> string \<Rightarrow> CodeStructure) \<Rightarrow> project \<Rightarrow> string list
     \<Rightarrow> error + CodeStructure list" where
  "parse_files parse p [] = Inr []"
| "parse_files parse p (filePath # rest) =
     (case parseFile parse p filePath (proj_path p) of
        Inl e \<Rightarrow> Inl e
      | Inr structure \<Rightarrow>
          (case parse_files parse p rest of
             Inl e \<Rightarrow> Inl e
           | Inr structures \<Rightarrow> Inr (structure # structures)))"

definition analyzeProject_handler ::
  "(string \<Rightarrow> string \<Rightarrow> string \<Rightarrow> CodeStructure) \<Rightarrow> project \<Rightarrow> analysis" where
  "analyzeProject_handler parse p =
     (let goFiles = getGoFilesRecursive (proj_path p) (proj_listing p)
      in case parse_files parse p goFiles of
           Inl e \<Rightarrow> AnalysisFailed e
         | Inr structures \<Rightarrow>
             Analysed structures (length goFiles) (countTotalElements structures))"

section \<open>Symbol resolution (goUtils)\<close>



definition space_plus :: rx where
  "space_plus = Plus (In [ASpace])"














section \<open>Call extraction and resolution (goUtils)\<close>




definition builtins :: "string list" where
  "builtins = [''make'', ''len'', ''cap'', ''append'', ''copy'', ''delete'', ''close'', ''panic'',
     ''recover'', ''print'', ''println'', ''new'', ''complex'', ''real'', ''imag'', ''min'', ''max'',
     ''if'', ''for'', ''switch'', ''select'', ''go'', ''defer'', ''return'', ''break'', ''continue'',
     ''fmt.Printf'', ''fmt.Println'', ''fmt.Print'', ''fmt.Sprintf'', ''log.Printf'',
     ''log.Println'']"

definition isBuiltinOrKeyword :: "string \<Rightarrow> bool" where
  "isBuiltinOrKeyword name =
     (name \<in> set builtins \<or> startsWith name ''fmt.'' \<or> startsWith name ''log.'' \<or>
      startsWith name ''strconv.'' \<or> startsWith name ''strings.'' \<or> str_includes name ''.'')"












section \<open>Block extraction (astParser) and body extraction (apiFlowUtils)\<close>

text \<open>
  \<open>ASTParser.extractTypeBlock\<close> works on lines: a line that contains \<open>{\<close> adds one to the
  counter and a line that contains \<open>}\<close> takes one off, whatever else the line holds. A start
  index outside the lines makes \<open>content.includes\<close> throw (\<open>None\<close>).
\<close>

record block =
  b_content :: string
  b_endIndex :: nat

fun type_block_loop :: "string list \<Rightarrow> nat \<Rightarrow> nat \<Rightarrow> string \<Rightarrow> block" where
  "type_block_loop [] i braceCount content = \<lparr>b_content = content, b_endIndex = i - 1\<rparr>"
| "type_block_loop (line # rest) i braceCount content =
     (if 0 < braceCount then
        (let c1 = (if str_includes line ''{'' then braceCount + 1 else braceCount);
             c2 = (if str_includes line ''}'' then c1 - 1 else c1)
         in type_block_loop rest (i + 1) c2 (content @ ''\<newline>'' @ line))
      else \<lparr>b_content = content, b_endIndex = i - 1\<rparr>)"

definition extractTypeBlock :: "string list \<Rightarrow> nat \<Rightarrow> block option" where
  "extractTypeBlock lines startIndex =
     (if startIndex < length lines then
        (let content = lines ! startIndex
         in if str_includes content ''{''
            then Some (type_block_loop (drop (startIndex + 1) lines) (startIndex + 1) 1 content)
            else Some \<lparr>b_content = content, b_endIndex = startIndex\<rparr>)
      else None)"

text \<open>
  \<open>extractFunctionBody\<close> reads characters. \<open>scan prev i s st\<close> is its loop at index \<open>i\<close>,
  with \<open>s\<close> the text from there on and \<open>prev\<close> the character before (\<open>content[i - 1]\<close>);
  it returns \<open>bodyStart\<close> and \<open>bodyEnd\<close>, \<open>None\<close> for the \<open>-1\<close> of the source.
\<close>

record scan_state =
  braceCount :: int
  bodyStart :: "nat option"
  inString :: bool
  inComment :: bool
  stringChar :: "char option"

definition quote_char :: "char \<Rightarrow> bool" where
  "quote_char c = (c = CHR 0x22 \<or> c = CHR 0x60)"

fun scan :: "char option \<Rightarrow> nat \<Rightarrow> string \<Rightarrow> scan_state \<Rightarrow> nat option \<times> nat option" where
  "scan prev i [] st = (bodyStart st, None)"
| "scan prev i (c # rest) st =
     (if quote_char c \<and> \<not> inComment st then
        (if \<not> inString st then
           scan (Some c) (Suc i) rest (st\<lparr>inString := True, stringChar := Some c\<rparr>)
         else if Some c = stringChar st \<and> prev \<noteq> Some (CHR 0x5C) then
           scan (Some c) (Suc i) rest (st\<lparr>inString := False, stringChar := None\<rparr>)
         else scan (Some c) (Suc i) rest st)
      else if \<not> inString st \<and> c = CHR ''/'' \<and> (case rest of [] \<Rightarrow> False | n # _ \<Rightarrow> n = CHR ''/'') then
        scan (Some c) (Suc i) rest (st\<lparr>inComment := True\<rparr>)
      else if \<not> inString st \<and> c = CHR ''\<newline>'' \<and> inComment st then
        scan (Some c) (Suc i) rest (st\<lparr>inComment := False\<rparr>)
      else if \<not> inString st \<and> \<not> inComment st then
        (if c = CHR ''{'' then
           scan (Some c) (Suc i) rest
             (st\<lparr>bodyStart := (if bodyStart st = None then Some i else bodyStart st),
                 braceCount := braceCount st + 1\<rparr>)
         else if c = CHR ''}'' then
           (if braceCount st - 1 = 0 then (bodyStart st, Some i)
            else scan (Some c) (Suc i) rest (st\<lparr>braceCount := braceCount st - 1\<rparr>))
         else scan (Some c) (Suc i) rest st)
      else scan (Some c) (Suc i) rest st)"

definition scan_start :: scan_state where
  "scan_start = \<lparr>braceCount = 0, bodyStart = None, inString = False, inComment = False,
     stringChar = None\<rparr>"

definition char_before :: "string \<Rightarrow> nat \<Rightarrow> char option" where
  "char_before content i = (if 0 < i \<and> i \<le> length content then Some (content ! (i - 1)) else None)"

definition extractFunctionBody :: "string \<Rightarrow> nat \<Rightarrow> string" where
  "extractFunctionBody content startIndex =
     (case scan (char_before content startIndex) startIndex (drop startIndex content) scan_start of
        (Some bStart, Some bEnd) \<Rightarrow> trim (slice content (bStart + 1) bEnd)
      | _ \<Rightarrow> [])"

text \<open>
  Text the scanner is written for: code characters, a slash that does not open a comment,
  string literals in double quotes or backticks (without their own quote inside and not
  ending in a backslash), line comments, and nested pairs of braces.
\<close>

definition plain :: "char \<Rightarrow> bool" where
  "plain c = (\<not> quote_char c \<and> c \<noteq> CHR ''/'' \<and> c \<noteq> CHR ''{'' \<and> c \<noteq> CHR ''}'')"

inductive body_text :: "string \<Rightarrow> bool" where
  Empty: "body_text []"
| Code: "plain c \<Longrightarrow> body_text w \<Longrightarrow> body_text (c # w)"
| Slash: "c \<noteq> CHR ''/'' \<Longrightarrow> body_text (c # w) \<Longrightarrow> body_text (CHR ''/'' # c # w)"
| Literal: "quote_char q \<Longrightarrow> q \<notin> set s \<Longrightarrow> s = [] \<or> last s \<noteq> CHR 0x5C \<Longrightarrow> body_text w
    \<Longrightarrow> body_text (q # s @ q # w)"
| Comment: "CHR ''\<newline>'' \<notin> set s \<Longrightarrow> body_text w
    \<Longrightarrow> body_text (CHR ''/'' # CHR ''/'' # s @ CHR ''\<newline>'' # w)"
| Braces: "body_text u \<Longrightarrow> body_text w \<Longrightarrow> body_text (CHR ''{'' # u @ CHR ''}'' # w)"

section \<open>Data-flow tracing (apiFlowUtils)\<close>

text \<open>
  A node of the flow graph is kept with its identifier, kind, name and file; an edge with
  its ends and labels. The line, content and metadata of a node are display data that no
  decision of the tracer reads, and are left out.
\<close>

datatype node_type = Route | Handler | Service | Dto | Repository | Database | External

fun type_name :: "node_type \<Rightarrow> string" where
  "type_name Route = ''route''"
| "type_name Handler = ''handler''"
| "type_name Service = ''service''"
| "type_name Dto = ''dto''"
| "type_name Repository = ''repository''"
| "type_name Database = ''database''"
| "type_name External = ''external''"

record DataFlowNode =
  n_id :: string
  n_type :: node_type
  n_name :: string
  n_file :: string

record DataFlowEdge =
  e_source :: string
  e_target :: string
  e_dataType :: "string option"
  e_transformation :: "string option"

record flow_call =
  c_functionName :: string
  c_context :: string
  c_line :: nat
  c_transformation :: "string option"

text \<open>
  The tracer looks a function up with \<open>new RegExp(`func\\s+${name}\\s*\\([^)]*\\)`, 'g')\<close>
  and uses the index of the first match only. For a name that is an identifier the pattern
  is the literal one below. Any other text is read by the constructor as pattern syntax (or
  refused, which the callers catch); what \<open>exec\<close> then finds is the parameter \<open>other\<close> of
  the model, so that every statement about the tracer holds for whatever it finds. Callee
  names always are identifiers; only the handler text of a route may be something else.
\<close>

definition is_identifier :: "string \<Rightarrow> bool" where
  "is_identifier name = (name \<noteq> [] \<and> list_all is_word name)"

definition def_rx :: "string \<Rightarrow> rx" where
  "def_rx name = seq [Lit ''func'', space_plus, Lit name, spaces, Lit ''('', not_paren_star, Lit '')'']"

definition definition_index :: "(string \<Rightarrow> string \<Rightarrow> nat option) \<Rightarrow> string \<Rightarrow> string \<Rightarrow> nat option" where
  "definition_index other name content =
     (if is_identifier name then map_option m_index (exec (def_rx name) content)
      else other name content)"

definition flow_builtins :: "string list" where
  "flow_builtins = [''len'', ''cap'', ''make'', ''append'', ''copy'', ''delete'', ''close'', ''panic'',
     ''recover'', ''print'', ''println'', ''new'', ''complex'', ''real'', ''imag'', ''min'', ''max'',
     ''if'', ''for'', ''switch'', ''select'', ''go'', ''defer'', ''return'', ''break'', ''continue'',
     ''range'']"

definition commonPatterns :: "string list" where
  "commonPatterns = [''fmt.'', ''log.'', ''strings.'', ''strconv.'', ''time.'', ''context.'', ''json.'',
     ''http.'', ''url.'', ''regexp.'', ''sort.'', ''math.'']"

definition isBuiltinOrCommonPattern :: "string \<Rightarrow> bool" where
  "isBuiltinOrCommonPattern funcName =
     (funcName \<in> set flow_builtins \<or> list_ex (\<lambda>pattern. startsWith funcName pattern) commonPatterns)"

definition extractTransformation :: "string \<Rightarrow> string option" where
  "extractTransformation line =
     (if str_includes line ''json.Marshal'' \<or> str_includes line ''json.Unmarshal''
        then Some ''JSON Conversion''
      else if str_includes line ''strconv.'' then Some ''Type Conversion''
      else if str_includes line ''strings.'' then Some ''String Processing''
      else None)"

definition inferDataType :: "string \<Rightarrow> string" where
  "inferDataType ctx =
     (let lower = toLowerCase ctx in
      if str_includes lower ''json'' \<or> str_includes lower ''marshal'' \<or> str_includes lower ''unmarshal''
        then ''JSON''
      else if str_includes lower ''xml'' then ''XML''
      else if str_includes lower ''string'' \<or> str_includes lower ''text'' then ''String''
      else if str_includes lower ''int'' \<or> str_includes lower ''number'' then ''Number''
      else if str_includes lower ''bool'' then ''Boolean''
      else if str_includes lower ''slice'' \<or> str_includes lower ''array'' then ''Array''
      else ''Data'')"

definition determineNodeType :: "string \<Rightarrow> string \<Rightarrow> node_type" where
  "determineNodeType functionName ctx =
     (let lowerFunc = toLowerCase functionName; lowerContext = toLowerCase ctx in
      if str_includes lowerFunc ''dto'' \<or> str_includes lowerFunc ''model'' \<or>
         str_includes lowerFunc ''request'' \<or> str_includes lowerFunc ''response'' \<or>
         str_includes lowerContext ''json.marshal'' \<or> str_includes lowerContext ''json.unmarshal''
        then Dto
      else if str_includes lowerFunc ''db'' \<or> str_includes lowerFunc ''query'' \<or>
         str_includes lowerFunc ''exec'' \<or> str_includes lowerFunc ''scan'' \<or>
         str_includes lowerContext ''select'' \<or> str_includes lowerContext ''insert'' \<or>
         str_includes lowerContext ''update'' \<or> str_includes lowerContext ''delete''
        then Database
      else if str_includes lowerFunc ''repo'' \<or> str_includes lowerFunc ''repository'' \<or>
         str_includes lowerFunc ''find'' \<or> str_includes lowerFunc ''save'' \<or>
         str_includes lowerFunc ''get'' \<or> str_includes lowerFunc ''create''
        then Repository
      else if str_includes lowerFunc ''http'' \<or> str_includes lowerFunc ''client'' \<or>
         str_includes lowerFunc ''api'' \<or> str_includes lowerContext ''http.get'' \<or>
         str_includes lowerContext ''http.post''
        then External
      else Service)"

text \<open>\<^verbatim>\<open>/(\w+(?:\.\w+)*)\s*\(/g\<close> on each line of the body.\<close>

definition flow_call_rx :: rx where
  "flow_call_rx = seq [Grp 1 (Seq word_plus (Star (Seq (Lit ''.'') word_plus))), spaces, Lit ''('']"

fun calls_in_body :: "nat \<Rightarrow> string list \<Rightarrow> flow_call list" where
  "calls_in_body i [] = []"
| "calls_in_body i (line # rest) =
     map (\<lambda>funcCall. \<lparr>c_functionName = funcCall, c_context = trim line, c_line = i + 1,
                        c_transformation = extractTransformation line\<rparr>)
       (filter (\<lambda>funcCall. \<not> isBuiltinOrCommonPattern funcCall)
          (List.map_filter (\<lambda>m. grp m 1) (exec_all flow_call_rx line)))
     @ calls_in_body (Suc i) rest"

definition calls_at :: "string \<Rightarrow> nat \<Rightarrow> flow_call list" where
  "calls_at content i = calls_in_body 0 (split_lines (extractFunctionBody content i))"

definition extractFunctionCallsFromFunction ::
  "(string \<Rightarrow> string \<Rightarrow> nat option) \<Rightarrow> string \<Rightarrow> string \<Rightarrow> flow_call list" where
  "extractFunctionCallsFromFunction other content functionName =
     (case definition_index other functionName content of
        None \<Rightarrow> []
      | Some i \<Rightarrow> calls_at content i)"

text \<open>
  \<open>findFunctionDefinition\<close>: the first source file with a definition of the name; a file
  that cannot be read is passed over. The result is the file's relative path and the body
  of the function (the line number is display data).
\<close>

fun definition_in_files ::
  "(string \<Rightarrow> string \<Rightarrow> nat option) \<Rightarrow> project \<Rightarrow> string \<Rightarrow> string list
     \<Rightarrow> (string \<times> string) option" where
  "definition_in_files other p functionName [] = None"
| "definition_in_files other p functionName (filePath # rest) =
     (case readFileSync p filePath of
        None \<Rightarrow> definition_in_files other p functionName rest
      | Some content \<Rightarrow>
          (case definition_index other functionName content of
             Some i \<Rightarrow> Some (relative_path (proj_path p) filePath, extractFunctionBody content i)
           | None \<Rightarrow> definition_in_files other p functionName rest))"

definition findFunctionDefinition ::
  "(string \<Rightarrow> string \<Rightarrow> nat option) \<Rightarrow> project \<Rightarrow> string \<Rightarrow> (string \<times> string) option" where
  "findFunctionDefinition other p functionName =
     definition_in_files other p functionName (getGoFilesRecursive (proj_path p) (proj_listing p))"

text \<open>
  \<open>extractDatabaseQuery\<close> tries eight patterns with the flags \<open>gi\<close>, such as
  \<^verbatim>\<open>/"(SELECT[^"]+)"/gi\<close>. With \<open>g\<close>, \<open>content.match\<close> gives the list of the matched texts,
  so that \<open>match[1]\<close> is the second match, and \<open>undefined\<close> (\<open>None\<close>) when there is one match
  only. Without any match the result is the first hundred characters of the content.
\<close>

definition ci :: "string \<Rightarrow> rx" where
  "ci s = seq (map (\<lambda>c. In [AChar (to_upper c), AChar (to_lower c)]) s)"

definition query_rx :: "char \<Rightarrow> string \<Rightarrow> rx" where
  "query_rx q keyword = seq [Lit [q], Grp 1 (Seq (ci keyword) (Plus (NotIn [AChar q]))), Lit [q]]"

definition queryPatterns :: "rx list" where
  "queryPatterns =
     [query_rx (CHR 0x22) ''SELECT'', query_rx (CHR 0x22) ''INSERT'', query_rx (CHR 0x22) ''UPDATE'',
      query_rx (CHR 0x22) ''DELETE'', query_rx (CHR 0x60) ''SELECT'', query_rx (CHR 0x60) ''INSERT'',
      query_rx (CHR 0x60) ''UPDATE'', query_rx (CHR 0x60) ''DELETE'']"

fun first_query :: "rx list \<Rightarrow> string \<Rightarrow> string option" where
  "first_query [] content = Some (take 100 content @ ''...'')"
| "first_query (pattern # rest) content =
     (case exec_all pattern content of
        [] \<Rightarrow> first_query rest content
      | [m] \<Rightarrow> None
      | m # m' # ms \<Rightarrow> Some (m_text m'))"

definition extractDatabaseQuery :: "string \<Rightarrow> string option" where
  "extractDatabaseQuery content = first_query queryPatterns content"

text \<open>
  \<open>createNodeForFunction\<close>. For a database node the query found goes to \<open>extractTableName\<close>,
  which calls \<open>query.match\<close>: with an undefined query that throws, the \<open>catch\<close> takes it, and
  the node is the fallback one, with the file \<open>unknown\<close>.
\<close>

definition createNodeForFunction ::
  "(string \<Rightarrow> string \<Rightarrow> nat option) \<Rightarrow> project \<Rightarrow> flow_call \<Rightarrow> node_type \<Rightarrow> string
     \<Rightarrow> DataFlowNode option" where
  "createNodeForFunction other p call nodeType nodeId =
     (if nodeType = External \<or> str_includes (c_functionName call) ''.'' then
        Some \<lparr>n_id = nodeId, n_type = nodeType, n_name = c_functionName call, n_file = ''external''\<rparr>
      else (case findFunctionDefinition other p (c_functionName call) of
              Some (file, body) \<Rightarrow>
                if nodeType = Database \<and> extractDatabaseQuery body = None then
                  Some \<lparr>n_id = nodeId, n_type = nodeType, n_name = c_functionName call,
                        n_file = ''unknown''\<rparr>
                else
                  Some \<lparr>n_id = nodeId, n_type = nodeType, n_name = c_functionName call,
                        n_file = file\<rparr>
            | None \<Rightarrow>
                Some \<lparr>n_id = nodeId, n_type = nodeType, n_name = c_functionName call,
                       n_file = ''unknown''\<rparr>))"

text \<open>
  \<open>traceFunctionCalls\<close> and its loop over the calls. The lists \<open>nodes\<close> and \<open>edges\<close> and the
  set \<open>processedFunctions\<close> are shared by all calls in the source; here they are a state
  that is passed on. The recursion is bounded by fuel: \<open>None\<close> means that the fuel ran out,
  and that enough fuel always exists is a theorem below. An unreadable file ends the call
  in its \<open>catch\<close>, with the state reached.
\<close>

record trace_state =
  nodes :: "DataFlowNode list"
  edges :: "DataFlowEdge list"
  processedFunctions :: "string list"

fun traceFunctionCalls ::
  "nat \<Rightarrow> (string \<Rightarrow> string \<Rightarrow> nat option) \<Rightarrow> project \<Rightarrow> string \<Rightarrow> string \<Rightarrow> string \<Rightarrow> trace_state
     \<Rightarrow> trace_state option"
and trace_calls ::
  "nat \<Rightarrow> (string \<Rightarrow> string \<Rightarrow> nat option) \<Rightarrow> project \<Rightarrow> string \<Rightarrow> flow_call list \<Rightarrow> trace_state
     \<Rightarrow> trace_state option" where
  "traceFunctionCalls 0 other p currentFile functionName sourceNodeId st = None"
| "traceFunctionCalls (Suc fuel) other p currentFile functionName sourceNodeId st =
     (let funcKey = currentFile @ '':'' @ functionName in
      if funcKey \<in> set (processedFunctions st) then Some st
      else
        (let st1 = st\<lparr>processedFunctions := processedFunctions st @ [funcKey]\<rparr> in
         case readFileSync p (join (proj_path p) currentFile) of
           None \<Rightarrow> Some st1
         | Some content \<Rightarrow>
             trace_calls fuel other p sourceNodeId
               (extractFunctionCallsFromFunction other content functionName) st1))"
| "trace_calls fuel other p sourceNodeId [] st = Some st"
| "trace_calls fuel other p sourceNodeId (call # rest) st =
     (let nodeType = determineNodeType (c_functionName call) (c_context call);
          nodeId = type_name nodeType @ ''-'' @ c_functionName call @ ''-'' @
                   show_nat (length (nodes st))
      in case List.find (\<lambda>n. n_name n = c_functionName call \<and> n_type n = nodeType) (nodes st) of
           None \<Rightarrow>
             (case createNodeForFunction other p call nodeType nodeId of
                None \<Rightarrow> trace_calls fuel other p sourceNodeId rest st
              | Some newNode \<Rightarrow>
                  (let st1 = st\<lparr>nodes := nodes st @ [newNode],
                          edges := edges st @
                            [\<lparr>e_source = sourceNodeId, e_target = nodeId,
                              e_dataType = Some (inferDataType (c_context call)),
                              e_transformation = c_transformation call\<rparr>]\<rparr>
                   in if n_file newNode \<noteq> [] \<and> \<not> str_includes (n_file newNode) ''external''
                      then (case traceFunctionCalls fuel other p (n_file newNode) (n_name newNode)
                                   nodeId st1 of
                              None \<Rightarrow> None
                            | Some st2 \<Rightarrow> trace_calls fuel other p sourceNodeId rest st2)
                      else trace_calls fuel other p sourceNodeId rest st1))
         | Some existingNode \<Rightarrow>
             trace_calls fuel other p sourceNodeId rest
               (st\<lparr>edges := edges st @
                  [\<lparr>e_source = sourceNodeId, e_target = n_id existingNode,
                    e_dataType = Some (inferDataType (c_context call)),
                    e_transformation = None\<rparr>]\<rparr>))"

text \<open>
  \<open>traceHandlerFunction\<close> has three returns (definition found, not found, file unreadable);
  they give the same identifier, kind, name and file.
\<close>

definition traceHandlerFunction :: "project \<Rightarrow> APIRoute \<Rightarrow> DataFlowNode option" where
  "traceHandlerFunction p route =
     Some \<lparr>n_id = ''handler-'' @ r_handler route, n_type = Handler, n_name = r_handler route,
           n_file = r_handlerFile route\<rparr>"

definition route_node :: "APIRoute \<Rightarrow> DataFlowNode" where
  "route_node targetRoute =
     \<lparr>n_id = ''route-'' @ r_id targetRoute, n_type = Route,
      n_name = r_method targetRoute @ '' '' @ r_path targetRoute,
      n_file = r_handlerFile targetRoute\<rparr>"

record flow_graph =
  g_nodes :: "DataFlowNode list"
  g_edges :: "DataFlowEdge list"

definition traceCompleteDataFlow ::
  "nat \<Rightarrow> (string \<Rightarrow> string \<Rightarrow> nat option) \<Rightarrow> project \<Rightarrow> APIRoute \<Rightarrow> flow_graph option" where
  "traceCompleteDataFlow fuel other p targetRoute =
     (let routeNode = route_node targetRoute in
      case traceHandlerFunction p targetRoute of
        None \<Rightarrow> Some \<lparr>g_nodes = [routeNode], g_edges = []\<rparr>
      | Some handlerNode \<Rightarrow>
          (case traceFunctionCalls fuel other p (n_file handlerNode) (n_name handlerNode)
                  (n_id handlerNode)
                  \<lparr>nodes = [routeNode, handlerNode],
                   edges = [\<lparr>e_source = n_id routeNode, e_target = n_id handlerNode,
                             e_dataType = Some ''HTTP Request'', e_transformation = None\<rparr>],
                   processedFunctions = []\<rparr> of
             None \<Rightarrow> None
           | Some st \<Rightarrow> Some \<lparr>g_nodes = nodes st, g_edges = edges st\<rparr>))"

text \<open>The state with which \<open>traceCompleteDataFlow\<close> starts the trace of the handler.\<close>

definition trace_start :: "APIRoute \<Rightarrow> trace_state" where
  "trace_start targetRoute =
     \<lparr>nodes = [route_node targetRoute,
               \<lparr>n_id = ''handler-'' @ r_handler targetRoute, n_type = Handler,
                n_name = r_handler targetRoute, n_file = r_handlerFile targetRoute\<rparr>],
      edges = [\<lparr>e_source = n_id (route_node targetRoute),
                e_target = ''handler-'' @ r_handler targetRoute,
                e_dataType = Some ''HTTP Request'', e_transformation = None\<rparr>],
      processedFunctions = []\<rparr>"

text \<open>
  One round of the loop of \<open>traceFunctionCalls\<close> without its recursive call: the state after
  the node and edge are added, and the function to trace next (file, name, source node), if
  any.
\<close>

definition visit ::
  "(string \<Rightarrow> string \<Rightarrow> nat option) \<Rightarrow> project \<Rightarrow> string \<Rightarrow> flow_call \<Rightarrow> trace_state
     \<Rightarrow> trace_state \<times> (string \<times> string \<times> string) option" where
  "visit other p sourceNodeId call st =
     (let nodeType = determineNodeType (c_functionName call) (c_context call);
          nodeId = type_name nodeType @ ''-'' @ c_functionName call @ ''-'' @
                   show_nat (length (nodes st))
      in case List.find (\<lambda>n. n_name n = c_functionName call \<and> n_type n = nodeType) (nodes st) of
           None \<Rightarrow>
             (case createNodeForFunction other p call nodeType nodeId of
                None \<Rightarrow> (st, None)
              | Some newNode \<Rightarrow>
                  (let st1 = st\<lparr>nodes := nodes st @ [newNode],
                          edges := edges st @
                            [\<lparr>e_source = sourceNodeId, e_target = nodeId,
                              e_dataType = Some (inferDataType (c_context call)),
                              e_transformation = c_transformation call\<rparr>]\<rparr>
                   in if n_file newNode \<noteq> [] \<and> \<not> str_includes (n_file newNode) ''external''
                      then (st1, Some (n_file newNode, n_name newNode, nodeId))
                      else (st1, None)))
         | Some existingNode \<Rightarrow>
             (st\<lparr>edges := edges st @
                  [\<lparr>e_source = sourceNodeId, e_target = n_id existingNode,
                    e_dataType = Some (inferDataType (c_context call)),
                    e_transformation = None\<rparr>]\<rparr>, None))"

text \<open>
  What a trace can meet in a project: the texts of its files, the callee names in any body
  cut from them, the files a node can name, and the keys made of the two.
\<close>

definition readable_contents :: "project \<Rightarrow> string list" where
  "readable_contents p = List.map_filter snd (all_files (proj_path p) (proj_listing p))"

definition callee_names :: "project \<Rightarrow> string list" where
  "callee_names p =
     concat (map (\<lambda>content. concat (map (\<lambda>i. map c_functionName (calls_at content i))
                                      [0..<Suc (length content)]))
               (readable_contents p))"

definition trace_files :: "project \<Rightarrow> string list" where
  "trace_files p = ''unknown'' #
     map (relative_path (proj_path p)) (getGoFilesRecursive (proj_path p) (proj_listing p))"

definition trace_keys :: "project \<Rightarrow> string list" where
  "trace_keys p = concat (map (\<lambda>f. map (\<lambda>n. f @ '':'' @ n) (callee_names p)) (trace_files p))"

definition node_ids :: "trace_state \<Rightarrow> string set" where
  "node_ids st = n_id ` set (nodes st)"

definition closed_edges :: "trace_state \<Rightarrow> bool" where
  "closed_edges st = (\<forall>e \<in> set (edges st). e_source e \<in> node_ids st \<and> e_target e \<in> node_ids st)"

definition name_kind :: "DataFlowNode \<Rightarrow> string \<times> node_type" where
  "name_kind n = (n_name n, n_type n)"

text \<open>A step of the tracer: a key is noted, or a call is visited from a node of the graph.\<close>

definition trace_step ::
  "(string \<Rightarrow> string \<Rightarrow> nat option) \<Rightarrow> project \<Rightarrow> trace_state \<Rightarrow> trace_state \<Rightarrow> bool" where
  "trace_step other p st st' =
     ((\<exists>funcKey. st' = st\<lparr>processedFunctions := processedFunctions st @ [funcKey]\<rparr>) \<or>
      (\<exists>sourceNodeId call r. sourceNodeId \<in> node_ids st \<and>
          visit other p sourceNodeId call st = (st', r)))"

section \<open>Concrete projects\<close>

text \<open>Small projects on which the model is run below.\<close>

definition c3_source :: string where
  \<open>c3_source = ''mux.HandleFunc("/users", GetUsersHandler).Methods("GET")''\<close>

definition c3_project :: project where
  "c3_project = \<lparr>proj_path = ''/p'', proj_listing = Some [File ''main.go'' (Some c3_source)]\<rparr>"

definition c4_project :: project where
  \<open>c4_project = \<lparr>proj_path = ''/p'', proj_listing = Some [File ''main.go''
     (Some ''r.GET("/a", H)\<newline>e.GET("/a", K)'')]\<rparr>\<close>

definition c3_get :: APIRoute where
  \<open>c3_get = \<lparr>r_id = ''get-users-GetUsersHandler-main-go-1'', r_method = ''GET'',
     r_path = ''/users'', r_handler = ''GetUsersHandler'', r_handlerFile = ''main.go'',
     r_handlerLine = 1,
     r_codeSnippet = ''mux.HandleFunc("/users", GetUsersHandler).Methods("GET")''\<rparr>\<close>

definition c3_all :: APIRoute where
  \<open>c3_all = \<lparr>r_id = ''all-users-GetUsersHandler-main-go-1'', r_method = ''ALL'',
     r_path = ''/users'', r_handler = ''GetUsersHandler'', r_handlerFile = ''main.go'',
     r_handlerLine = 1,
     r_codeSnippet = ''mux.HandleFunc("/users", GetUsersHandler).Methods("GET")''\<rparr>\<close>

definition c4_first :: APIRoute where
  \<open>c4_first = \<lparr>r_id = ''get-a-H-main-go-1'', r_method = ''GET'', r_path = ''/a'',
     r_handler = ''H'', r_handlerFile = ''main.go'', r_handlerLine = 1,
     r_codeSnippet = ''r.GET("/a", H) e.GET("/a", K)''\<rparr>\<close>

definition c1_project :: project where
  "c1_project = \<lparr>proj_path = ''/p'', proj_listing = Some
     [File ''a.go'' None, File ''b.go'' (Some ''package b'')]\<rparr>"

definition c9_listing :: "dirent list option" where
  "c9_listing = Some
     [Dir ''node_modules'' (Some [Dir ''dep'' (Some [File ''dep.go'' (Some ''package dep'')])]),
      Dir ''vendor'' (Some [File ''v.go'' (Some ''package v'')]),
      Dir ''.git'' (Some [File ''h.go'' (Some ''package h'')]),
      File ''main.go'' (Some ''package main''),
      File ''main_test.go'' (Some ''package main'')]"









definition c2_struct_lines :: "string list" where
  \<open>c2_struct_lines =
     [''type Foo struct {'', ''  Name string "foo{bar"'', ''}'', '''', ''func f() {'', ''}'']\<close>

definition c2_function :: string where
  \<open>c2_function = ''func f() string {\<newline>  return "foo{bar" // }\<newline>}\<newline>func g() {}''\<close>



definition c7_inner :: project where
  "c7_inner = \<lparr>proj_path = ''/p'', proj_listing = Some [File ''main.go''
     (Some ''func H() {\<newline>A()\<newline>}\<newline>func A() {\<newline>B()\<newline>}\<newline>func B() {\<newline>A()\<newline>}'')]\<rparr>"

definition c7_inner_route :: APIRoute where
  "c7_inner_route = \<lparr>r_id = ''get-a-H-main-go-1'', r_method = ''GET'', r_path = ''/a'',
     r_handler = ''H'', r_handlerFile = ''main.go'', r_handlerLine = 1, r_codeSnippet = []\<rparr>"

definition no_other :: "string \<Rightarrow> string \<Rightarrow> nat option" where
  "no_other name content = None"

definition c7_inner_graph :: flow_graph where
  "c7_inner_graph =
     \<lparr>g_nodes =
        [\<lparr>n_id = ''route-get-a-H-main-go-1'', n_type = Route, n_name = ''GET /a'', n_file = ''main.go''\<rparr>,
         \<lparr>n_id = ''handler-H'', n_type = Handler, n_name = ''H'', n_file = ''main.go''\<rparr>,
         \<lparr>n_id = ''service-A-2'', n_type = Service, n_name = ''A'', n_file = ''main.go''\<rparr>,
         \<lparr>n_id = ''service-B-3'', n_type = Service, n_name = ''B'', n_file = ''main.go''\<rparr>],
      g_edges =
        [\<lparr>e_source = ''route-get-a-H-main-go-1'', e_target = ''handler-H'',
           e_dataType = Some ''HTTP Request'', e_transformation = None\<rparr>,
         \<lparr>e_source = ''handler-H'', e_target = ''service-A-2'',
           e_dataType = Some ''Data'', e_transformation = None\<rparr>,
         \<lparr>e_source = ''service-A-2'', e_target = ''service-B-3'',
           e_dataType = Some ''Data'', e_transformation = None\<rparr>,
         \<lparr>e_source = ''service-B-3'', e_target = ''service-A-2'',
           e_dataType = Some ''Data'', e_transformation = None\<rparr>]\<rparr>"



definition c7_inner_text :: string where
  "c7_inner_text = ''func H() {\<newline>A()\<newline>}\<newline>func A() {\<newline>B()\<newline>}\<newline>func B() {\<newline>A()\<newline>}''"

definition c7_inner_final :: trace_state where
  "c7_inner_final = \<lparr>nodes = g_nodes c7_inner_graph, edges = g_edges c7_inner_graph,
     processedFunctions = [''main.go:H'', ''main.go:A'', ''main.go:B'']\<rparr>"

chapter \<open>Facts\<close>

section \<open>Characters and the matcher\<close>

text \<open>
  The recursive equations of \<open>rm\<close> and \<open>exec_all_from\<close> are used by name only. The
  character classes are restated on the bits of a character, and the two length tests of
  the definitions are shown to be redundant, which gives the equations used to evaluate
  the model on concrete texts.
\<close>

declare rm.simps [simp del]
declare exec_all_from.simps [simp del]



lemma is_word_bits:
  "is_word (Char b0 b1 b2 b3 b4 b5 b6 b7) =
     (\<not> b7 \<and> (if b6 then (if b4 \<and> b3 \<and> (b2 \<or> (b1 \<and> b0)) then \<not> b5 \<and> b2 \<and> b1 \<and> b0
                          else (b4 \<or> b3 \<or> b2 \<or> b1 \<or> b0))
                else b5 \<and> b4 \<and> (\<not> b3 \<or> (\<not> b2 \<and> \<not> b1))))"
  by (cases b0; cases b1; cases b2; cases b3; cases b4; cases b5; cases b6; cases b7;
      simp add: is_word_def)

lemma is_space_bits:
  "is_space (Char b0 b1 b2 b3 b4 b5 b6 b7) =
     (if b5 then \<not> b0 \<and> \<not> b1 \<and> \<not> b2 \<and> \<not> b3 \<and> \<not> b4 \<and> \<not> b6
      else \<not> b7 \<and> \<not> b6 \<and> \<not> b4 \<and> b3 \<and> (if b2 then \<not> b1 else b1 \<or> b0))"
  by (cases b0; cases b1; cases b2; cases b3; cases b4; cases b5; cases b6; cases b7;
      simp add: is_space_def)

lemma to_lower_bits:
  "to_lower (Char b0 b1 b2 b3 b4 b5 b6 b7) =
     (if \<not> b7 \<and> b6 \<and> \<not> b5 \<and> (b4 \<or> b3 \<or> b2 \<or> b1 \<or> b0) \<and> \<not> (b4 \<and> b3 \<and> (b2 \<or> (b1 \<and> b0)))
      then Char b0 b1 b2 b3 b4 True b6 b7 else Char b0 b1 b2 b3 b4 b5 b6 b7)"
  by (cases b0; cases b1; cases b2; cases b3; cases b4; cases b5; cases b6; cases b7;
      simp add: to_lower_def char_of_def bit_iff_odd)

lemma to_upper_bits:
  "to_upper (Char b0 b1 b2 b3 b4 b5 b6 b7) =
     (if \<not> b7 \<and> b6 \<and> b5 \<and> (b4 \<or> b3 \<or> b2 \<or> b1 \<or> b0) \<and> \<not> (b4 \<and> b3 \<and> (b2 \<or> (b1 \<and> b0)))
      then Char b0 b1 b2 b3 b4 False b6 b7 else Char b0 b1 b2 b3 b4 b5 b6 b7)"
  by (cases b0; cases b1; cases b2; cases b3; cases b4; cases b5; cases b6; cases b7;
      simp add: to_upper_def char_of_def bit_iff_odd)


lemma starts_with_append: "starts_with p s \<Longrightarrow> p @ drop (length p) s = s"
  by (induction p s rule: starts_with.induct) auto

lemma then_match_elim:
  assumes "w \<in> set (concat (map (then_match f b) ws))"
  obtains w1 w2 where "w1 \<in> set ws" "w2 \<in> set (f (b \<and> fst w1 = []) (fst (snd w1)))"
    "w = after w1 w2"
  using assms by (auto simp: then_match_def)

lemma rm_consumes: "w \<in> set (rm r b s) \<Longrightarrow> fst w @ fst (snd w) = s"
proof (induction r b s arbitrary: w rule: rm.induct)
  case (1 l b s)
  then have "starts_with l s" "w = (l, drop (length l) s, [])"
    by (auto simp: rm.simps split: if_splits)
  with starts_with_append[of l s] show ?case by simp
next
  case (2 as b s)
  then show ?case by (auto simp: rm.simps split: list.splits if_splits)
next
  case (3 as b s)
  then show ?case by (auto simp: rm.simps split: list.splits if_splits)
next
  case (4 b s)
  then show ?case by (auto simp: rm.simps split: if_splits)
next
  case (5 p q b s)
  from "5.prems" have "w \<in> set (concat (map (then_match (rm q) b) (rm p b s)))"
    by (simp add: rm.simps(5))
  then obtain w1 w2 where w: "w1 \<in> set (rm p b s)"
      "w2 \<in> set (rm q (b \<and> fst w1 = []) (fst (snd w1)))" "w = after w1 w2"
    by (rule then_match_elim)
  from "5.IH"(1)[OF w(1)] "5.IH"(2)[OF w(1) w(2)] w(3) show ?case
    by (simp add: after_def)
next
  case (6 p q b s)
  from "6.prems" have "w \<in> set (rm p b s) \<or> w \<in> set (rm q b s)" by (simp add: rm.simps(6))
  then show ?case using "6.IH" by blast
next
  case (7 p b s)
  from "7.prems" have "w \<in> set (rm p b s) \<or> w = ([], s, [])" by (auto simp: rm.simps(7))
  then show ?case
  proof
    assume "w \<in> set (rm p b s)"
    then show ?thesis by (rule "7.IH")
  next
    assume "w = ([], s, [])"
    then show ?thesis by simp
  qed
next
  case (8 p b s)
  let ?ws = "filter (\<lambda>w. length (fst (snd w)) < length s) (rm p b s)"
  from "8.prems" have "w = ([], s, []) \<or>
      w \<in> set (concat (map (then_match (rm (Star p)) False) ?ws))"
    by (auto simp: rm.simps(8))
  then show ?case
  proof
    assume "w = ([], s, [])"
    then show ?thesis by simp
  next
    assume "w \<in> set (concat (map (then_match (rm (Star p)) False) ?ws))"
    then obtain w1 w2 where w: "w1 \<in> set ?ws"
        "w2 \<in> set (rm (Star p) (False \<and> fst w1 = []) (fst (snd w1)))" "w = after w1 w2"
      by (rule then_match_elim)
    from w(1) have w1: "w1 \<in> set (rm p b s)" by simp
    from w(2) have w2: "w2 \<in> set (rm (Star p) False (fst (snd w1)))" by simp
    from "8.IH"(1)[OF w1] "8.IH"(2)[OF w(1) w2] w(3) show ?thesis
      by (simp add: after_def)
  qed
next
  case (9 p b s)
  from "9.prems" have "w \<in> set (concat (map (then_match (rm (Star p)) b) (rm p b s)))"
    by (simp add: rm.simps(9))
  then obtain w1 w2 where w: "w1 \<in> set (rm p b s)"
      "w2 \<in> set (rm (Star p) (b \<and> fst w1 = []) (fst (snd w1)))" "w = after w1 w2"
    by (rule then_match_elim)
  from "9.IH"(1)[OF w(1)] "9.IH"(2)[OF w(1) w(2)] w(3) show ?case
    by (simp add: after_def)
next
  case (10 k p b s)
  from "10.prems" obtain w1 where w1: "w1 \<in> set (rm p b s)" "fst w = fst w1"
      "fst (snd w) = fst (snd w1)"
    by (auto simp: rm.simps(10))
  from "10.IH"[OF w1(1)] w1(2,3) show ?case by simp
qed

lemma rm_Star_fast:
  "rm (Star p) b s =
     concat (map (then_match (rm (Star p)) False)
       (filter (\<lambda>w. fst w \<noteq> []) (rm p b s))) @ [([], s, [])]"
proof -
  have "filter (\<lambda>w. length (fst (snd w)) < length s) (rm p b s)
      = filter (\<lambda>w. fst w \<noteq> []) (rm p b s)"
  proof (rule filter_cong[OF refl])
    fix w assume "w \<in> set (rm p b s)"
    then have "fst w @ fst (snd w) = s" by (rule rm_consumes)
    then have "length s = length (fst w) + length (fst (snd w))"
      by (metis length_append)
    then show "(length (fst (snd w)) < length s) = (fst w \<noteq> [])" by auto
  qed
  then show ?thesis by (simp add: rm.simps(8))
qed

lemma search_splits:
  "search r i b s = Some m \<Longrightarrow>
     \<exists>pre. s = pre @ m_text m @ m_rest m \<and> m_index m = i + length pre"
proof (induction r i b s rule: search.induct)
  case (1 r i b)
  then obtain w ws where "rm r b [] = w # ws" by (auto split: list.splits)
  with 1 rm_consumes[of w r b "[]"] show ?case by (auto split: list.splits)
next
  case (2 r i b x t)
  show ?case
  proof (cases "rm r b (x # t)")
    case Nil
    with 2 obtain pre where "t = pre @ m_text m @ m_rest m" "m_index m = Suc i + length pre"
      by auto
    then have "x # t = (x # pre) @ m_text m @ m_rest m \<and> m_index m = i + length (x # pre)"
      by simp
    then show ?thesis by blast
  next
    case (Cons w ws)
    with 2 rm_consumes[of w r b "x # t"] have
      "x # t = [] @ m_text m @ m_rest m \<and> m_index m = i + length ([] :: string)" by auto
    then show ?thesis by blast
  qed
qed

lemma search_shorter:
  assumes "search r i b s = Some m"
  shows "length (m_rest m) \<le> length s"
    and "m_text m \<noteq> [] \<Longrightarrow> length (m_rest m) < length s"
proof -
  from search_splits[OF assms] obtain pre where "s = pre @ m_text m @ m_rest m" by blast
  then have "length s = length pre + length (m_text m) + length (m_rest m)"
    by (metis length_append add.assoc)
  then show "length (m_rest m) \<le> length s"
    and "m_text m \<noteq> [] \<Longrightarrow> length (m_rest m) < length s" by auto
qed

lemma exec_all_from_fast:
  "exec_all_from r i b s =
     (case search r i b s of
        None \<Rightarrow> []
      | Some m \<Rightarrow>
          (if m_text m = [] then
             (if m_rest m \<noteq> [] then m # exec_all_from r (Suc (m_index m)) False (tl (m_rest m))
              else [m])
           else m # exec_all_from r (m_index m + length (m_text m)) False (m_rest m)))"
proof (cases "search r i b s")
  case None
  then show ?thesis by (subst exec_all_from.simps) simp
next
  case (Some m)
  note sh = search_shorter[OF Some]
  show ?thesis
  proof (cases "m_text m = []")
    case True
    with sh(1) Some show ?thesis by (subst exec_all_from.simps) simp
  next
    case False
    with sh(2) Some show ?thesis by (subst exec_all_from.simps) simp
  qed
qed

lemmas rm_code [code] = rm.simps(1-7) rm_Star_fast rm.simps(9-10)
declare exec_all_from_fast [code]
declare is_word_bits [code] is_space_bits [code] to_lower_bits [code] to_upper_bits [code]




section \<open>Deduplication of routes\<close>

lemma findIndex_Some_iff:
  "findIndex P xs = Some i \<longleftrightarrow> i < length xs \<and> P (xs ! i) \<and> (\<forall>j<i. \<not> P (xs ! j))"
proof (induction xs arbitrary: i)
  case Nil
  then show ?case by simp
next
  case (Cons x xs)
  show ?case
  proof (cases "P x")
    case True
    then show ?thesis by (cases i) auto
  next
    case False
    show ?thesis
    proof (cases i)
      case 0
      with False show ?thesis by (auto split: option.splits)
    next
      case (Suc k)
      have "(\<forall>j<Suc k. \<not> P ((x # xs) ! j)) \<longleftrightarrow> (\<forall>j<k. \<not> P (xs ! j))"
        using False by (auto simp: less_Suc_eq_0_disj)
      with False Suc Cons.IH[of k] show ?thesis by (auto split: option.splits)
    qed
  qed
qed

definition first_seen :: "APIRoute list \<Rightarrow> nat \<Rightarrow> bool" where
  "first_seen rs i = (\<forall>j<i. endpoint (rs ! j) \<noteq> endpoint (rs ! i))"

lemma zip_upt_nth: "zip [0 ..< length xs] xs = map (\<lambda>i. (i, xs ! i)) [0 ..< length xs]"
proof -
  have "zip [0 ..< length xs] (map ((!) xs) [0 ..< length xs])
      = map (\<lambda>i. (i, xs ! i)) [0 ..< length xs]"
    unfolding zip_map2 zip_same_conv_map by simp
  then show ?thesis by (simp only: map_nth)
qed

lemma unique_routes_nth:
  "unique_routes rs = map (\<lambda>i. rs ! i) (filter (first_seen rs) [0 ..< length rs])"
proof -
  have "\<And>i. i < length rs \<Longrightarrow>
      (Some i = findIndex (same_endpoint (rs ! i)) rs) = first_seen rs i"
    by (auto simp: eq_commute[of "Some _"] findIndex_Some_iff same_endpoint_def first_seen_def
        endpoint_def)
  then have "filter (\<lambda>i. Some i = findIndex (same_endpoint (rs ! i)) rs) [0 ..< length rs]
      = filter (first_seen rs) [0 ..< length rs]"
    by (intro filter_cong) auto
  then show ?thesis
    by (simp add: unique_routes_def zip_upt_nth filter_map comp_def)
qed

lemma unique_routes_distinct: "distinct (map endpoint (unique_routes rs))"
proof -
  have "inj_on (\<lambda>i. endpoint (rs ! i)) {i. i < length rs \<and> first_seen rs i}"
  proof (rule inj_onI)
    fix i k
    assume a: "i \<in> {i. i < length rs \<and> first_seen rs i}"
      "k \<in> {i. i < length rs \<and> first_seen rs i}" "endpoint (rs ! i) = endpoint (rs ! k)"
    show "i = k"
    proof (rule ccontr)
      assume "i \<noteq> k"
      then consider "i < k" | "k < i" by linarith
      then show False using a by cases (auto simp: first_seen_def)
    qed
  qed
  then show ?thesis
    by (simp add: unique_routes_nth distinct_map comp_def)
qed

lemma unique_routes_first:
  assumes "r \<in> set (unique_routes rs)"
  shows "List.find (\<lambda>x. endpoint x = endpoint r) rs = Some r"
proof -
  from assms obtain i where i: "i < length rs" "first_seen rs i" "r = rs ! i"
    by (auto simp: unique_routes_nth)
  then show ?thesis
    by (auto simp: find_Some_iff first_seen_def intro!: exI[of _ i])
qed

lemma unique_routes_covers: "set (map endpoint (unique_routes rs)) = set (map endpoint rs)"
proof
  show "set (map endpoint (unique_routes rs)) \<subseteq> set (map endpoint rs)"
    by (auto simp: unique_routes_nth)
next
  show "set (map endpoint rs) \<subseteq> set (map endpoint (unique_routes rs))"
  proof
    fix e assume "e \<in> set (map endpoint rs)"
    then obtain k where k: "k < length rs" "endpoint (rs ! k) = e"
      by (auto simp: in_set_conv_nth)
    define i where "i = (LEAST j. j < length rs \<and> endpoint (rs ! j) = e)"
    from k have P: "i < length rs \<and> endpoint (rs ! i) = e"
      unfolding i_def by (intro LeastI[of "\<lambda>j. j < length rs \<and> endpoint (rs ! j) = e" k]) simp
    have "first_seen rs i"
      unfolding first_seen_def
    proof (intro allI impI)
      fix j assume "j < i"
      with P have "j < length rs" by simp
      from \<open>j < i\<close> have "\<not> (j < length rs \<and> endpoint (rs ! j) = e)"
        unfolding i_def by (rule not_less_Least)
      with \<open>j < length rs\<close> P show "endpoint (rs ! j) \<noteq> endpoint (rs ! i)" by simp
    qed
    with P show "e \<in> set (map endpoint (unique_routes rs))"
      by (auto simp: unique_routes_nth intro!: image_eqI[of _ _ i])
  qed
qed

lemma unique_routes_subseq: "subseq (unique_routes rs) rs"
proof -
  have "subseq (map snd (filter (\<lambda>(index, route). Some index = findIndex (same_endpoint route) rs)
       (zip [0 ..< length rs] rs))) (map snd (zip [0 ..< length rs] rs))"
    by (intro subseq_map subseq_filter_left)
  then show ?thesis by (simp add: unique_routes_def)
qed

section \<open>Claims about route discovery\<close>

text \<open>
  Claim C4. The list returned by route discovery has no two routes with the same
  (method, path) pair. It covers every pair found in the files, keeps the order of the scan,
  and the route kept for a pair is the first one found with it.
\<close>

theorem routes_deduplicated:
  assumes "discoverAPIRoutesInternal p = Inr routes"
  shows "distinct (map endpoint routes) \<and>
    (\<exists>found. routes_of_files p (getGoFilesRecursive (proj_path p) (proj_listing p)) = Inr found
       \<and> set (map endpoint routes) = set (map endpoint found)
       \<and> subseq routes found
       \<and> (\<forall>r \<in> set routes. List.find (\<lambda>x. endpoint x = endpoint r) found = Some r))"
proof -
  from assms obtain found where
    f: "routes_of_files p (getGoFilesRecursive (proj_path p) (proj_listing p)) = Inr found"
    and r: "routes = unique_routes found"
    by (auto simp: discoverAPIRoutesInternal_def split: sum.splits)
  have "distinct (map endpoint routes)" unfolding r by (rule unique_routes_distinct)
  moreover have "set (map endpoint routes) = set (map endpoint found)"
    unfolding r by (rule unique_routes_covers)
  moreover have "subseq routes found" unfolding r by (rule unique_routes_subseq)
  moreover have "\<forall>r \<in> set routes. List.find (\<lambda>x. endpoint x = endpoint r) found = Some r"
    unfolding r by (auto dest: unique_routes_first)
  ultimately show ?thesis using f by blast
qed



text \<open>
  Claim C3. A file holding the single registration
  \<^verbatim>\<open>mux.HandleFunc("/users", GetUsersHandler).Methods("GET")\<close> yields two routes, not one:
  the multiplexer pattern reads it as GET /users and the ServeMux pattern
  \<^verbatim>\<open>/mux\.HandleFunc\("([^"]+)",\s*([^)]+)\)/g\<close> reads it again as ALL /users; the two differ in
  the method, so the deduplication keeps both.
\<close>

theorem methods_registration_found_twice:
  "discoverAPIRoutesInternal c3_project = Inr [c3_get, c3_all]"
  by code_simp

theorem routes_deduplicated_witness:
  "discoverAPIRoutesInternal c4_project = Inr [c4_first] \<and>
   distinct (map endpoint [c4_first]) \<and>
    (\<exists>found. routes_of_files c4_project
         (getGoFilesRecursive (proj_path c4_project) (proj_listing c4_project)) = Inr found
       \<and> set (map endpoint [c4_first]) = set (map endpoint found)
       \<and> subseq [c4_first] found
       \<and> (\<forall>r \<in> set [c4_first]. List.find (\<lambda>x. endpoint x = endpoint r) found = Some r))"
proof -
  have e: "discoverAPIRoutesInternal c4_project = Inr [c4_first]" by code_simp
  from routes_deduplicated[OF e] e show ?thesis by blast
qed


section \<open>Claims about file discovery and whole-file analysis\<close>

lemma parse_files_unreadable:
  "f \<in> set files \<Longrightarrow> readFileSync p f = None \<Longrightarrow> \<exists>e. parse_files parse p files = Inl e"
  by (induction files) (auto simp: parseFile_def split: option.splits sum.splits)

text \<open>
  Claim C1. For a project with an unreadable file \<open>a.go\<close> and a readable file \<open>b.go\<close>,
  \<open>parseFile\<close> on \<open>a.go\<close> ends with the exception of the read (whatever the parsing after
  the read does), and the project scan ends with it too: no structure of \<open>b.go\<close> is returned.
\<close>

theorem unreadable_file_aborts_scan:
  "parseFile parse c1_project ''/p/a.go'' ''/p'' = Inl (ReadError ''/p/a.go'') \<and>
   analyzeProject_handler parse c1_project = AnalysisFailed (ReadError ''/p/a.go'')"
  by (simp add: c1_project_def analyzeProject_handler_def parseFile_def readFileSync_def
      join_def startsWith_def endsWith_def)

text \<open>
  Claim C9. \<open>getGoFiles\<close> walks into \<open>node_modules\<close>: on a tree with a source file under
  \<open>node_modules/dep\<close> it returns that file, where \<open>getGoFilesRecursive\<close> returns the
  project's own file only.
\<close>

theorem getGoFiles_enters_node_modules:
  "getGoFiles ''/p'' c9_listing = [''/p/node_modules/dep/dep.go'', ''/p/main.go''] \<and>
   getGoFilesRecursive ''/p'' c9_listing = [''/p/main.go'']"
  by (simp add: c9_listing_def join_def startsWith_def endsWith_def)

section \<open>Claims about symbol resolution\<close>











section \<open>Claims about call extraction\<close>



lemma not_builtin_no_dot: "\<not> isBuiltinOrKeyword n \<Longrightarrow> \<not> str_includes n ''.''"
  by (simp add: isBuiltinOrKeyword_def)










section \<open>Claims about block extraction\<close>

lemma scan_prev: "\<not> inString st \<Longrightarrow> scan prev i s st = scan prev' i s st"
  by (cases s) simp_all

lemma in_string_skip:
  assumes "inString st" and "stringChar st = Some q" and "\<not> inComment st" and "q \<notin> set s"
  shows "scan prev i (s @ rest) st =
    scan (if s = [] then prev else Some (last s)) (i + length s) rest st"
  using assms(4)
proof (induction s arbitrary: prev i)
  case Nil
  then show ?case by simp
next
  case (Cons c s)
  from Cons.prems have c: "c \<noteq> q" and s: "q \<notin> set s" by auto
  have "scan prev i ((c # s) @ rest) st = scan (Some c) (Suc i) (s @ rest) st"
    using assms(1-3) c by simp
  also have "\<dots> = scan (if s = [] then Some c else Some (last s)) (Suc i + length s) rest st"
    by (rule Cons.IH[OF s])
  finally show ?case by simp
qed

lemma comment_state: "inComment st \<Longrightarrow> st\<lparr>inComment := True\<rparr> = st"
  by simp

lemma in_comment_skip:
  assumes "inComment st" and "\<not> inString st" and "CHR ''\<newline>'' \<notin> set s"
  shows "scan prev i (s @ rest) st = scan prev' (i + length s) rest st"
  using assms(3)
proof (induction s arbitrary: prev i)
  case Nil
  from assms(2) show ?case by (simp add: scan_prev[of st prev _ _ prev'])
next
  case (Cons c s)
  from Cons.prems have c: "c \<noteq> CHR ''\<newline>''" and s: "CHR ''\<newline>'' \<notin> set s" by auto
  have "scan prev i ((c # s) @ rest) st = scan (Some c) (Suc i) (s @ rest) st"
    using assms(1,2) c by (simp add: comment_state)
  also have "\<dots> = scan prev' (Suc i + length s) rest st"
    by (rule Cons.IH[OF s])
  finally show ?case by simp
qed

lemma plain_skip:
  assumes "\<not> inString st" and "\<not> inComment st" and "list_all plain u"
  shows "scan prev i (u @ rest) st = scan prev' (i + length u) rest st"
  using assms(3)
proof (induction u arbitrary: prev i)
  case Nil
  from assms(1) show ?case by (simp add: scan_prev[of st prev _ _ prev'])
next
  case (Cons c u)
  have "scan prev i ((c # u) @ rest) st = scan (Some c) (Suc i) (u @ rest) st"
    using assms(1,2) Cons.prems by (simp add: plain_def)
  also have "\<dots> = scan prev' (Suc i + length u) rest st"
    using Cons.prems by (intro Cons.IH) simp
  finally show ?case by simp
qed

lemma quote_not_backslash: "quote_char q \<Longrightarrow> q \<noteq> CHR 0x5C"
  by (auto simp: quote_char_def)

lemma body_skip:
  assumes "body_text w"
  shows "\<not> inString st \<Longrightarrow> \<not> inComment st \<Longrightarrow> stringChar st = None \<Longrightarrow> 0 < braceCount st
    \<Longrightarrow> bodyStart st \<noteq> None
    \<Longrightarrow> scan prev i (w @ rest) st = scan prev' (i + length w) rest st"
  using assms
proof (induction w arbitrary: prev prev' i st rest rule: body_text.induct)
  case Empty
  then show ?case by (simp add: scan_prev[of st prev _ _ prev'])
next
  case (Code c w)
  have "scan prev i ((c # w) @ rest) st = scan (Some c) (Suc i) (w @ rest) st"
    using Code.prems Code.hyps(1) by (simp add: plain_def)
  also have "\<dots> = scan prev' (Suc i + length w) rest st"
    using Code.prems by (intro Code.IH)
  finally show ?case by (simp del: scan.simps add: add.assoc)
next
  case (Slash c w)
  have "scan prev i ((CHR ''/'' # c # w) @ rest) st = scan (Some (CHR ''/'')) (Suc i) ((c # w) @ rest) st"
    using Slash.prems Slash.hyps(1) by (simp add: quote_char_def)
  also have "\<dots> = scan prev' (Suc i + length (c # w)) rest st"
    using Slash.prems by (intro Slash.IH)
  finally show ?case by (simp del: scan.simps add: add.assoc)
next
  case (Literal q s w)
  let ?st1 = "st\<lparr>inString := True, stringChar := Some q\<rparr>"
  let ?p = "if s = [] then Some q else Some (last s)"
  have closed: "st\<lparr>inString := False, stringChar := None\<rparr> = st"
    using Literal.prems by simp
  have p: "?p \<noteq> Some (CHR 0x5C)"
    using Literal.hyps(1,3) quote_not_backslash by auto
  have "scan prev i ((q # s @ q # w) @ rest) st = scan (Some q) (Suc i) (s @ (q # w @ rest)) ?st1"
    using Literal.prems Literal.hyps(1) by simp
  also have "\<dots> = scan ?p (Suc i + length s) (q # w @ rest) ?st1"
    using Literal.prems Literal.hyps(2) by (intro in_string_skip) simp_all
  also have "\<dots> = scan (Some q) (Suc (Suc i + length s)) (w @ rest) st"
    using Literal.prems Literal.hyps(1) p by (simp add: closed)
  also have "\<dots> = scan prev' (Suc (Suc i + length s) + length w) rest st"
    using Literal.prems by (intro Literal.IH)
  finally show ?case by (simp del: scan.simps add: add.assoc)
next
  case (Comment s w)
  let ?st1 = "st\<lparr>inComment := True\<rparr>"
  have closed: "st\<lparr>inComment := False\<rparr> = st" using Comment.prems by simp
  have "scan prev i ((CHR ''/'' # CHR ''/'' # s @ CHR ''\<newline>'' # w) @ rest) st
      = scan (Some (CHR ''/'')) (Suc i) ((CHR ''/'' # s) @ (CHR ''\<newline>'' # w @ rest)) ?st1"
    using Comment.prems by (simp add: quote_char_def)
  also have "\<dots> = scan None (Suc i + length (CHR ''/'' # s)) (CHR ''\<newline>'' # w @ rest) ?st1"
    using Comment.prems Comment.hyps(1) by (intro in_comment_skip) simp_all
  also have "\<dots> = scan (Some (CHR ''\<newline>'')) (Suc (Suc i + length (CHR ''/'' # s))) (w @ rest) st"
    using Comment.prems by (simp add: quote_char_def closed)
  also have "\<dots> = scan prev' (Suc (Suc i + length (CHR ''/'' # s)) + length w) rest st"
    using Comment.prems by (intro Comment.IH)
  finally show ?case by (simp del: scan.simps add: add.assoc)
next
  case (Braces u w)
  let ?st1 = "st\<lparr>braceCount := braceCount st + 1\<rparr>"
  have open_st: "st\<lparr>bodyStart := (if bodyStart st = None then Some i else bodyStart st),
      braceCount := braceCount st + 1\<rparr> = ?st1"
    using Braces.prems by simp
  have closed: "st\<lparr>braceCount := braceCount st\<rparr> = st" by simp
  have "scan prev i ((CHR ''{'' # u @ CHR ''}'' # w) @ rest) st
      = scan (Some (CHR ''{'')) (Suc i) (u @ (CHR ''}'' # w @ rest)) ?st1"
    using Braces.prems by (simp add: quote_char_def open_st)
  also have "\<dots> = scan None (Suc i + length u) (CHR ''}'' # w @ rest) ?st1"
    using Braces.prems by (intro Braces.IH) simp_all
  also have "\<dots> = scan (Some (CHR ''}'')) (Suc (Suc i + length u)) (w @ rest) st"
    using Braces.prems by (simp add: quote_char_def closed)
  also have "\<dots> = scan prev' (Suc (Suc i + length u) + length w) rest st"
    using Braces.prems by (intro Braces.IH)
  finally show ?case by (simp del: scan.simps add: add.assoc)
qed

lemma slice_middle: "slice (a @ m @ b) (length a) (length a + length m) = m"
  by (simp add: slice_def)

text \<open>
  The character scanner of \<open>extractFunctionBody\<close> does what is asked of block extraction:
  for a function whose signature text has no quote, slash or brace and whose body is made of
  code, string literals, line comments and nested brace pairs, it returns the trimmed text
  between the opening brace and the real closing brace, whatever braces the string literals
  and comments hold, and whatever follows the function.
\<close>

lemma function_body_extracted:
  assumes "list_all plain pre" and "body_text inner"
  shows "extractFunctionBody (before @ pre @ CHR ''{'' # inner @ CHR ''}'' # post) (length before)
    = trim inner"
proof -
  let ?content = "before @ pre @ CHR ''{'' # inner @ CHR ''}'' # post"
  let ?k = "length before + length pre"
  let ?st1 = "\<lparr>braceCount = 1, bodyStart = Some ?k, inString = False, inComment = False,
     stringChar = None\<rparr>"
  have "scan (char_before ?content (length before)) (length before)
      (drop (length before) ?content) scan_start
      = scan (char_before ?content (length before)) (length before)
          (pre @ (CHR ''{'' # inner @ CHR ''}'' # post)) scan_start" by simp
  also have "\<dots> = scan None ?k (CHR ''{'' # inner @ CHR ''}'' # post) scan_start"
    using assms(1) by (intro plain_skip) (simp_all add: scan_start_def)
  also have "\<dots> = scan (Some (CHR ''{'')) (Suc ?k) (inner @ (CHR ''}'' # post)) ?st1"
    by (simp add: scan_start_def quote_char_def)
  also have "\<dots> = scan None (Suc ?k + length inner) (CHR ''}'' # post) ?st1"
    using assms(2) by (intro body_skip) simp_all
  also have "\<dots> = (Some ?k, Some (Suc ?k + length inner))"
    by (simp add: quote_char_def)
  finally have sc: "scan (char_before ?content (length before)) (length before)
      (drop (length before) ?content) scan_start = (Some ?k, Some (Suc ?k + length inner))" .
  have "slice ?content (?k + 1) (Suc ?k + length inner) = inner"
    using slice_middle[of "before @ pre @ [CHR ''{'']" inner "CHR ''}'' # post"] by simp
  with sc show ?thesis by (simp add: extractFunctionBody_def)
qed

lemma body_text_code: "list_all plain u \<Longrightarrow> body_text w \<Longrightarrow> body_text (u @ w)"
  by (induction u) (auto intro: body_text.Code)

lemma function_body_extracted_example:
  \<open>extractFunctionBody c2_function 0 = ''return "foo{bar" // }''\<close>
proof -
  let ?inner = \<open>''\<newline>  return "foo{bar" // }\<newline>''\<close>
  have 1: "list_all plain ''func f() string ''" by (simp add: plain_def quote_char_def)
  have "body_text (CHR ''/'' # CHR ''/'' # '' }'' @ CHR ''\<newline>'' # [])"
    by (intro body_text.Comment body_text.Empty) simp
  then have "body_text ('' '' @ (CHR ''/'' # CHR ''/'' # '' }'' @ CHR ''\<newline>'' # []))"
    by (intro body_text_code) (simp_all add: plain_def quote_char_def)
  then have "body_text (CHR 0x22 # ''foo{bar'' @ CHR 0x22 #
      ('' '' @ (CHR ''/'' # CHR ''/'' # '' }'' @ CHR ''\<newline>'' # [])))"
    by (intro body_text.Literal) (simp_all add: quote_char_def)
  then have "body_text (''\<newline>  return '' @ (CHR 0x22 # ''foo{bar'' @ CHR 0x22 #
      ('' '' @ (CHR ''/'' # CHR ''/'' # '' }'' @ CHR ''\<newline>'' # []))))"
    by (intro body_text_code) (simp_all add: plain_def quote_char_def)
  then have 2: "body_text ?inner" by simp
  have 3: \<open>trim ?inner = ''return "foo{bar" // }''\<close> by code_simp
  have 4: "c2_function = [] @ ''func f() string '' @ CHR ''{'' # ?inner @ CHR ''}'' # ''\<newline>func g() {}''"
    by (simp add: c2_function_def)
  from function_body_extracted[OF 1 2, of "[]" "''\<newline>func g() {}''"] 3 4 show ?thesis by simp
qed

text \<open>
  Claim C2. Block extraction of a struct does not end at the real final \<open>}\<close> when a string
  of the struct holds an unmatched \<open>{\<close>: \<open>extractTypeBlock\<close> counts lines that contain a
  brace and knows neither strings nor comments. With the field tag \<^verbatim>\<open>"foo{bar"\<close> the block
  of the struct that closes on line 2 runs to the end of the file (line 5) and takes the
  function that follows with it, where \<open>extractFunctionBody\<close> above stops at the real brace.
\<close>

theorem struct_block_runs_past_end:
  \<open>extractTypeBlock c2_struct_lines 0 =
     Some \<lparr>b_content = ''type Foo struct {\<newline>  Name string "foo{bar"\<newline>}\<newline>\<newline>func f() {\<newline>}'',
           b_endIndex = 5\<rparr>\<close>
  by code_simp

section \<open>The tracer\<close>

lemma trace_calls_Cons:
  "trace_calls fuel other p src (call # rest) st =
     (case visit other p src call st of
        (st1, None) \<Rightarrow> trace_calls fuel other p src rest st1
      | (st1, Some (f, n, i)) \<Rightarrow>
          (case traceFunctionCalls fuel other p f n i st1 of
             None \<Rightarrow> None
           | Some st2 \<Rightarrow> trace_calls fuel other p src rest st2))"
  by (simp add: visit_def Let_def split: option.splits)

lemma traceFunctionCalls_Suc:
  "traceFunctionCalls (Suc fuel) other p currentFile functionName src st =
     (if currentFile @ '':'' @ functionName \<in> set (processedFunctions st) then Some st
      else case readFileSync p (join (proj_path p) currentFile) of
             None \<Rightarrow> Some (st\<lparr>processedFunctions :=
                       processedFunctions st @ [currentFile @ '':'' @ functionName]\<rparr>)
           | Some content \<Rightarrow>
               trace_calls fuel other p src
                 (extractFunctionCallsFromFunction other content functionName)
                 (st\<lparr>processedFunctions :=
                       processedFunctions st @ [currentFile @ '':'' @ functionName]\<rparr>))"
  by (simp add: Let_def split: option.splits)

declare trace_calls.simps(2) [simp del] traceFunctionCalls.simps(2) [simp del]

lemma createNode_fields:
  "\<exists>n. createNodeForFunction other p call nodeType nodeId = Some n \<and>
     n_id n = nodeId \<and> n_type n = nodeType \<and> n_name n = c_functionName call"
  by (auto simp: createNodeForFunction_def split: option.splits if_splits)

lemma visit_cases:
  assumes "visit other p src call st = (st1, r)"
  obtains (existing) n where
      "List.find (\<lambda>n. n_name n = c_functionName call \<and>
         n_type n = determineNodeType (c_functionName call) (c_context call)) (nodes st) = Some n"
      "st1 = st\<lparr>edges := edges st @
                  [\<lparr>e_source = src, e_target = n_id n,
                    e_dataType = Some (inferDataType (c_context call)),
                    e_transformation = None\<rparr>]\<rparr>"
      "r = None"
  | (new) n where
      "List.find (\<lambda>n. n_name n = c_functionName call \<and>
         n_type n = determineNodeType (c_functionName call) (c_context call)) (nodes st) = None"
      "createNodeForFunction other p call
         (determineNodeType (c_functionName call) (c_context call))
         (type_name (determineNodeType (c_functionName call) (c_context call)) @ ''-'' @
            c_functionName call @ ''-'' @ show_nat (length (nodes st))) = Some n"
      "st1 = st\<lparr>nodes := nodes st @ [n],
                edges := edges st @
                  [\<lparr>e_source = src, e_target = n_id n,
                    e_dataType = Some (inferDataType (c_context call)),
                    e_transformation = c_transformation call\<rparr>]\<rparr>"
      "r = (if n_file n \<noteq> [] \<and> \<not> str_includes (n_file n) ''external''
            then Some (n_file n, n_name n, n_id n) else None)"
proof (cases "List.find (\<lambda>n. n_name n = c_functionName call \<and>
         n_type n = determineNodeType (c_functionName call) (c_context call)) (nodes st)")
  case None
  let ?t = "determineNodeType (c_functionName call) (c_context call)"
  let ?i = "type_name ?t @ ''-'' @ c_functionName call @ ''-'' @ show_nat (length (nodes st))"
  from createNode_fields[of other p call ?t ?i] obtain n where
    n: "createNodeForFunction other p call ?t ?i = Some n" "n_id n = ?i" "n_name n = c_functionName call"
    by blast
  from assms None n have "st1 = st\<lparr>nodes := nodes st @ [n],
                edges := edges st @
                  [\<lparr>e_source = src, e_target = n_id n,
                    e_dataType = Some (inferDataType (c_context call)),
                    e_transformation = c_transformation call\<rparr>]\<rparr>"
    and "r = (if n_file n \<noteq> [] \<and> \<not> str_includes (n_file n) ''external''
            then Some (n_file n, n_name n, n_id n) else None)"
    by (auto simp: visit_def Let_def split: if_splits)
  with None n(1) show ?thesis by (rule new)
next
  case (Some n)
  with assms have "st1 = st\<lparr>edges := edges st @
                  [\<lparr>e_source = src, e_target = n_id n,
                    e_dataType = Some (inferDataType (c_context call)),
                    e_transformation = None\<rparr>]\<rparr>" and "r = None"
    by (auto simp: visit_def Let_def)
  with Some show ?thesis by (rule existing)
qed

lemma visit_same_keys:
  "visit other p src call st = (st1, r) \<Longrightarrow> processedFunctions st1 = processedFunctions st"
  by (erule visit_cases) simp_all

lemma visit_grows:
  "visit other p src call st = (st1, r) \<Longrightarrow>
     prefix (nodes st) (nodes st1) \<and> prefix (edges st) (edges st1)"
  by (erule visit_cases) simp_all

lemma visit_closed:
  assumes "visit other p src call st = (st1, r)" and "closed_edges st" and "src \<in> node_ids st"
  shows "closed_edges st1 \<and> (\<forall>f n i. r = Some (f, n, i) \<longrightarrow> i \<in> node_ids st1)"
  using assms(1)
proof (cases rule: visit_cases)
  case (existing n)
  then have "n \<in> set (nodes st)" by (auto simp: find_Some_iff)
  with existing assms(2,3) show ?thesis by (auto simp: closed_edges_def node_ids_def)
next
  case (new n)
  with assms(2,3) show ?thesis by (auto simp: closed_edges_def node_ids_def)
qed

lemma visit_distinct:
  assumes "visit other p src call st = (st1, r)" and "distinct (map name_kind (nodes st))"
  shows "distinct (map name_kind (nodes st1))"
  using assms(1)
proof (cases rule: visit_cases)
  case (existing n)
  with assms(2) show ?thesis by simp
next
  case (new n)
  from createNode_fields[of other p call "determineNodeType (c_functionName call) (c_context call)"
      "type_name (determineNodeType (c_functionName call) (c_context call)) @ ''-'' @
            c_functionName call @ ''-'' @ show_nat (length (nodes st))"] new(2)
  have n: "n_name n = c_functionName call"
    "n_type n = determineNodeType (c_functionName call) (c_context call)" by auto
  from new(1) have "\<forall>m \<in> set (nodes st). \<not> (n_name m = c_functionName call \<and>
      n_type m = determineNodeType (c_functionName call) (c_context call))"
    by (simp add: find_None_iff)
  with n have "name_kind n \<notin> name_kind ` set (nodes st)"
    by (auto simp: name_kind_def)
  with new(3) assms(2) show ?thesis by simp
qed

lemma visit_edge:
  assumes "visit other p src call st = (st1, r)"
  shows "\<exists>e \<in> set (edges st1). e_source e = src \<and>
     (\<exists>n \<in> set (nodes st1). n_id n = e_target e \<and> n_name n = c_functionName call \<and>
        n_type n = determineNodeType (c_functionName call) (c_context call))"
  using assms(1)
proof (cases rule: visit_cases)
  case (existing n)
  then have "n \<in> set (nodes st)" "n_name n = c_functionName call"
    "n_type n = determineNodeType (c_functionName call) (c_context call)"
    by (auto simp: find_Some_iff)
  with existing(2) show ?thesis by auto
next
  case (new n)
  from createNode_fields[of other p call "determineNodeType (c_functionName call) (c_context call)"
      "type_name (determineNodeType (c_functionName call) (c_context call)) @ ''-'' @
            c_functionName call @ ''-'' @ show_nat (length (nodes st))"] new(2)
  have n: "n_name n = c_functionName call"
    "n_type n = determineNodeType (c_functionName call) (c_context call)" by auto
  with new(3) show ?thesis by auto
qed

lemma visit_target:
  assumes "visit other p src call st = (st1, Some (f, n, i))"
  shows "i \<in> node_ids st1"
  using assms by (cases rule: visit_cases) (auto simp: node_ids_def split: if_splits)

lemma step_grows:
  assumes "trace_step other p st st'"
  shows "prefix (nodes st) (nodes st') \<and> prefix (edges st) (edges st') \<and>
    set (processedFunctions st) \<subseteq> set (processedFunctions st')"
  using assms unfolding trace_step_def
  by (auto dest: visit_grows visit_same_keys)

lemma steps_grow:
  assumes "rtranclp (trace_step other p) st st'"
  shows "prefix (nodes st) (nodes st') \<and> prefix (edges st) (edges st') \<and>
    set (processedFunctions st) \<subseteq> set (processedFunctions st')"
  using assms
proof (induction rule: rtranclp_induct)
  case base
  then show ?case by simp
next
  case (step y z)
  from step_grows[OF step(2)] step(3) show ?case
    by (meson prefix_order.order_trans subset_trans)
qed

lemma steps_ids:
  assumes "rtranclp (trace_step other p) st st'"
  shows "node_ids st \<subseteq> node_ids st'"
  using steps_grow[OF assms] by (auto simp: node_ids_def dest: set_mono_prefix)

lemma steps_closed:
  assumes "rtranclp (trace_step other p) st st'" and "closed_edges st"
  shows "closed_edges st'"
  using assms
proof (induction rule: rtranclp_induct)
  case base
  then show ?case by simp
next
  case (step y z)
  then have "closed_edges y" by simp
  with step(2) show ?case unfolding trace_step_def
    by (auto simp: closed_edges_def node_ids_def dest: visit_closed[unfolded closed_edges_def node_ids_def])
qed

lemma steps_distinct:
  assumes "rtranclp (trace_step other p) st st'" and "distinct (map name_kind (nodes st))"
  shows "distinct (map name_kind (nodes st'))"
  using assms
proof (induction rule: rtranclp_induct)
  case base
  then show ?case by simp
next
  case (step y z)
  then have "distinct (map name_kind (nodes y))" by simp
  with step(2) show ?case unfolding trace_step_def
    by (auto dest: visit_distinct)
qed

lemma trace_calls_steps_aux:
  assumes rec: "\<And>cf fn src st st'. src \<in> node_ids st \<Longrightarrow>
      traceFunctionCalls fuel other p cf fn src st = Some st' \<Longrightarrow>
      rtranclp (trace_step other p) st st'"
  shows "src \<in> node_ids st \<Longrightarrow> trace_calls fuel other p src calls st = Some st' \<Longrightarrow>
    rtranclp (trace_step other p) st st'"
proof (induction calls arbitrary: st)
  case Nil
  then show ?case by simp
next
  case (Cons call rest)
  obtain st1 r where v: "visit other p src call st = (st1, r)" by (cases "visit other p src call st")
  with Cons.prems(1) have s1: "trace_step other p st st1" unfolding trace_step_def by blast
  then have i1: "src \<in> node_ids st1"
    using Cons.prems(1) steps_ids[of other p st st1] by auto
  show ?case
  proof (cases r)
    case None
    with v Cons.prems(2) have "trace_calls fuel other p src rest st1 = Some st'"
      by (simp add: trace_calls_Cons)
    from Cons.IH[OF i1 this] s1 show ?thesis by simp
  next
    case (Some t)
    obtain f n i where t: "t = (f, n, i)" by (cases t)
    with v Some Cons.prems(2) obtain st2 where
      2: "traceFunctionCalls fuel other p f n i st1 = Some st2"
      and 3: "trace_calls fuel other p src rest st2 = Some st'"
      by (auto simp: trace_calls_Cons split: option.splits)
    from v Some t have "i \<in> node_ids st1" by (auto dest: visit_target)
    from rec[OF this 2] have s2: "rtranclp (trace_step other p) st1 st2" .
    with i1 have "src \<in> node_ids st2" using steps_ids by blast
    from Cons.IH[OF this 3] s1 s2 show ?thesis by simp
  qed
qed

lemma trace_steps:
  "src \<in> node_ids st \<Longrightarrow> traceFunctionCalls fuel other p cf fn src st = Some st' \<Longrightarrow>
    rtranclp (trace_step other p) st st'"
proof (induction fuel arbitrary: cf fn src st st')
  case 0
  then show ?case by simp
next
  case (Suc fuel)
  let ?st1 = "st\<lparr>processedFunctions := processedFunctions st @ [cf @ '':'' @ fn]\<rparr>"
  have s1: "trace_step other p st ?st1" unfolding trace_step_def by blast
  show ?case
  proof (cases "cf @ '':'' @ fn \<in> set (processedFunctions st)")
    case True
    with Suc.prems(2) show ?thesis by (simp add: traceFunctionCalls_Suc)
  next
    case False
    show ?thesis
    proof (cases "readFileSync p (join (proj_path p) cf)")
      case None
      with False Suc.prems(2) have "st' = ?st1" by (simp add: traceFunctionCalls_Suc)
      with s1 show ?thesis by simp
    next
      case (Some content)
      with False Suc.prems(2) have
        c: "trace_calls fuel other p src (extractFunctionCallsFromFunction other content fn) ?st1
          = Some st'" by (simp add: traceFunctionCalls_Suc)
      from Suc.prems(1) have "src \<in> node_ids ?st1" by (simp add: node_ids_def)
      then have "rtranclp (trace_step other p) ?st1 st'"
        using c by (rule trace_calls_steps_aux[rotated]) (rule Suc.IH)
      with s1 show ?thesis by simp
    qed
  qed
qed

lemma trace_calls_steps:
  "src \<in> node_ids st \<Longrightarrow> trace_calls fuel other p src calls st = Some st' \<Longrightarrow>
    rtranclp (trace_step other p) st st'"
  by (rule trace_calls_steps_aux) (rule trace_steps)

lemma trace_calls_more_fuel_aux:
  assumes rec: "\<And>cf fn src st st'. traceFunctionCalls fuel other p cf fn src st = Some st' \<Longrightarrow>
      traceFunctionCalls (Suc fuel) other p cf fn src st = Some st'"
  shows "trace_calls fuel other p src calls st = Some st' \<Longrightarrow>
    trace_calls (Suc fuel) other p src calls st = Some st'"
proof (induction calls arbitrary: st)
  case Nil
  then show ?case by simp
next
  case (Cons call rest)
  obtain st1 r where v: "visit other p src call st = (st1, r)" by (cases "visit other p src call st")
  show ?case
  proof (cases r)
    case None
    with v Cons show ?thesis by (simp add: trace_calls_Cons)
  next
    case (Some t)
    obtain f n i where t: "t = (f, n, i)" by (cases t)
    with v Some Cons.prems obtain st2 where
      2: "traceFunctionCalls fuel other p f n i st1 = Some st2"
      and 3: "trace_calls fuel other p src rest st2 = Some st'"
      by (auto simp: trace_calls_Cons split: option.splits)
    from rec[OF 2] Cons.IH[OF 3] v Some t show ?thesis by (simp add: trace_calls_Cons)
  qed
qed

lemma trace_more_fuel:
  "traceFunctionCalls fuel other p cf fn src st = Some st' \<Longrightarrow>
     traceFunctionCalls (Suc fuel) other p cf fn src st = Some st'"
proof (induction fuel arbitrary: cf fn src st st')
  case 0
  then show ?case by simp
next
  case (Suc fuel)
  have rec: "\<And>cf fn src st st'. traceFunctionCalls fuel other p cf fn src st = Some st' \<Longrightarrow>
      traceFunctionCalls (Suc fuel) other p cf fn src st = Some st'" by (rule Suc.IH)
  from Suc.prems show ?case
    unfolding traceFunctionCalls_Suc[of "Suc fuel"] traceFunctionCalls_Suc[of fuel]
    by (auto split: if_splits option.splits intro: trace_calls_more_fuel_aux[OF rec])
qed

lemma trace_fuel_mono:
  assumes "traceFunctionCalls fuel other p cf fn src st = Some st'" and "fuel \<le> fuel'"
  shows "traceFunctionCalls fuel' other p cf fn src st = Some st'"
  using assms(2,1)
  by (induction rule: dec_induct) (auto intro: trace_more_fuel)

lemma trace_calls_edges:
  assumes "src \<in> node_ids st" and "trace_calls fuel other p src calls st = Some st'"
    and "call \<in> set calls"
  shows "\<exists>e \<in> set (edges st'). e_source e = src \<and>
     (\<exists>n \<in> set (nodes st'). n_id n = e_target e \<and> n_name n = c_functionName call \<and>
        n_type n = determineNodeType (c_functionName call) (c_context call))"
  using assms
proof (induction calls arbitrary: st)
  case Nil
  then show ?case by simp
next
  case (Cons c rest)
  obtain st1 r where v: "visit other p src c st = (st1, r)" by (cases "visit other p src c st")
  with Cons.prems(1) have s1: "trace_step other p st st1" unfolding trace_step_def by blast
  then have i1: "src \<in> node_ids st1"
    using Cons.prems(1) steps_ids[of other p st st1] by auto
  have "\<exists>st2. rtranclp (trace_step other p) st1 st2 \<and> src \<in> node_ids st2 \<and>
      trace_calls fuel other p src rest st2 = Some st'"
  proof (cases r)
    case None
    with v Cons.prems(2) have "trace_calls fuel other p src rest st1 = Some st'"
      by (simp add: trace_calls_Cons)
    with i1 show ?thesis by blast
  next
    case (Some t)
    obtain f n i where t: "t = (f, n, i)" by (cases t)
    with v Some Cons.prems(2) obtain st2 where
      2: "traceFunctionCalls fuel other p f n i st1 = Some st2"
      and 3: "trace_calls fuel other p src rest st2 = Some st'"
      by (auto simp: trace_calls_Cons split: option.splits)
    from v Some t have "i \<in> node_ids st1" by (auto dest: visit_target)
    from trace_steps[OF this 2] have s2: "rtranclp (trace_step other p) st1 st2" .
    with i1 have "src \<in> node_ids st2" using steps_ids by blast
    with s2 3 show ?thesis by blast
  qed
  then obtain st2 where s2: "rtranclp (trace_step other p) st1 st2" and i2: "src \<in> node_ids st2"
    and 3: "trace_calls fuel other p src rest st2 = Some st'" by blast
  show ?case
  proof (cases "call = c")
    case True
    from visit_edge[OF v] obtain e n where
      e: "e \<in> set (edges st1)" "e_source e = src" "n \<in> set (nodes st1)" "n_id n = e_target e"
        "n_name n = c_functionName c"
        "n_type n = determineNodeType (c_functionName c) (c_context c)" by blast
    from s2 trace_calls_steps[OF i2 3] have "rtranclp (trace_step other p) st1 st'" by simp
    from steps_grow[OF this] have "set (edges st1) \<subseteq> set (edges st')"
      "set (nodes st1) \<subseteq> set (nodes st')" by (auto dest: set_mono_prefix)
    with e True show ?thesis by blast
  next
    case False
    with Cons.prems(3) have "call \<in> set rest" by simp
    from Cons.IH[OF i2 3 this] show ?thesis .
  qed
qed

lemma set_map_filter_iff: "y \<in> set (List.map_filter f xs) \<longleftrightarrow> (\<exists>x \<in> set xs. f x = Some y)"
  by (induction xs) (auto simp: List.map_filter_simps split: option.splits)

lemma calls_at_beyond:
  "length content \<le> i \<Longrightarrow> calls_at content i = calls_at content (length content)"
  by (simp add: calls_at_def extractFunctionBody_def)

lemma read_readable:
  assumes "readFileSync p path = Some content"
  shows "content \<in> set (readable_contents p)"
proof -
  from assms have "map_of (all_files (proj_path p) (proj_listing p)) path = Some (Some content)"
    by (auto simp: readFileSync_def split: option.splits)
  then have "(path, Some content) \<in> set (all_files (proj_path p) (proj_listing p))"
    by (rule map_of_SomeD)
  then show ?thesis unfolding readable_contents_def set_map_filter_iff by force
qed

lemma extract_names:
  assumes "content \<in> set (readable_contents p)"
    and "call \<in> set (extractFunctionCallsFromFunction other content fn)"
  shows "c_functionName call \<in> set (callee_names p)"
proof -
  from assms(2) obtain i where "call \<in> set (calls_at content i)"
    by (auto simp: extractFunctionCallsFromFunction_def split: option.splits)
  then have "call \<in> set (calls_at content (min i (length content)))"
    using calls_at_beyond[of content i] by (cases "i \<le> length content") (simp_all add: min_def)
  moreover have "min i (length content) \<in> set [0..<Suc (length content)]" by auto
  ultimately show ?thesis using assms(1) unfolding callee_names_def by fastforce
qed

lemma definition_in_files_file:
  "definition_in_files other p name files = Some (file, body) \<Longrightarrow>
     file \<in> relative_path (proj_path p) ` set files"
  by (induction files) (auto split: option.splits)

lemma createNode_file:
  assumes "createNodeForFunction other p call nodeType nodeId = Some n"
  shows "n_file n = ''external'' \<or> n_file n \<in> set (trace_files p)"
proof (cases "nodeType = External \<or> str_includes (c_functionName call) ''.''")
  case True
  with assms show ?thesis by (auto simp: createNodeForFunction_def)
next
  case False
  show ?thesis
  proof (cases "findFunctionDefinition other p (c_functionName call)")
    case None
    with False assms show ?thesis by (auto simp: createNodeForFunction_def trace_files_def)
  next
    case (Some d)
    obtain path body where d: "d = (path, body)" by (cases d)
    with Some have "path \<in> set (trace_files p)"
      unfolding findFunctionDefinition_def trace_files_def
      by (auto dest: definition_in_files_file)
    moreover from False Some d assms have "n_file n = ''unknown'' \<or> n_file n = path"
      by (auto simp: createNodeForFunction_def split: if_splits)
    ultimately show ?thesis by (auto simp: trace_files_def)
  qed
qed

lemma external_includes: "str_includes ''external'' ''external''"
  by code_simp

lemma visit_key:
  assumes "visit other p src call st = (st1, Some (f, n, i))"
    and "c_functionName call \<in> set (callee_names p)"
  shows "f @ '':'' @ n \<in> set (trace_keys p)"
  using assms(1)
proof (cases rule: visit_cases)
  case (existing m)
  then show ?thesis by simp
next
  case (new m)
  from new(4) have f: "f = n_file m" "n = n_name m" "\<not> str_includes (n_file m) ''external''"
    by (auto split: if_splits)
  with createNode_file[OF new(2)] external_includes have "f \<in> set (trace_files p)" by auto
  moreover from createNode_fields[of other p call
      "determineNodeType (c_functionName call) (c_context call)"
      "type_name (determineNodeType (c_functionName call) (c_context call)) @ ''-'' @
            c_functionName call @ ''-'' @ show_nat (length (nodes st))"] new(2) f
  have "n = c_functionName call" by auto
  ultimately show ?thesis using assms(2) unfolding trace_keys_def by auto
qed

lemma trace_calls_returns_aux:
  assumes rec: "\<And>cf fn src st. src \<in> node_ids st \<Longrightarrow>
      card ((set (trace_keys p) \<union> {cf @ '':'' @ fn}) - set (processedFunctions st)) < fuel \<Longrightarrow>
      \<exists>st'. traceFunctionCalls fuel other p cf fn src st = Some st'"
  shows "src \<in> node_ids st \<Longrightarrow> c_functionName ` set calls \<subseteq> set (callee_names p) \<Longrightarrow>
    card (set (trace_keys p) - set (processedFunctions st)) < fuel \<Longrightarrow>
    \<exists>st'. trace_calls fuel other p src calls st = Some st'"
proof (induction calls arbitrary: st)
  case Nil
  then show ?case by simp
next
  case (Cons call rest)
  obtain st1 r where v: "visit other p src call st = (st1, r)" by (cases "visit other p src call st")
  with Cons.prems(1) have s1: "trace_step other p st st1" unfolding trace_step_def by blast
  then have i1: "src \<in> node_ids st1"
    using Cons.prems(1) steps_ids[of other p st st1] by auto
  from v have k1: "processedFunctions st1 = processedFunctions st" by (rule visit_same_keys)
  from Cons.prems(2) have names: "c_functionName ` set rest \<subseteq> set (callee_names p)" by auto
  show ?case
  proof (cases r)
    case None
    from Cons.IH[OF i1 names] Cons.prems(3) k1 obtain st' where
      "trace_calls fuel other p src rest st1 = Some st'" by auto
    with v None show ?thesis by (simp add: trace_calls_Cons)
  next
    case (Some t)
    obtain f n i where t: "t = (f, n, i)" by (cases t)
    from v Some t have i: "i \<in> node_ids st1" by (auto dest: visit_target)
    from v Some t Cons.prems(2) have "f @ '':'' @ n \<in> set (trace_keys p)"
      by (auto dest: visit_key)
    then have "set (trace_keys p) \<union> {f @ '':'' @ n} = set (trace_keys p)" by auto
    with Cons.prems(3) k1 have
      "card ((set (trace_keys p) \<union> {f @ '':'' @ n}) - set (processedFunctions st1)) < fuel"
      by simp
    from rec[OF i this] obtain st2 where
      2: "traceFunctionCalls fuel other p f n i st1 = Some st2" by blast
    from trace_steps[OF i 2] have s2: "rtranclp (trace_step other p) st1 st2" .
    with i1 have i2: "src \<in> node_ids st2" using steps_ids by blast
    from steps_grow[OF s2] k1 have "set (processedFunctions st) \<subseteq> set (processedFunctions st2)"
      by simp
    then have "set (trace_keys p) - set (processedFunctions st2)
        \<subseteq> set (trace_keys p) - set (processedFunctions st)" by auto
    then have "card (set (trace_keys p) - set (processedFunctions st2))
        \<le> card (set (trace_keys p) - set (processedFunctions st))"
      by (intro card_mono) auto
    with Cons.prems(3) have "card (set (trace_keys p) - set (processedFunctions st2)) < fuel"
      by simp
    from Cons.IH[OF i2 names this] obtain st' where
      "trace_calls fuel other p src rest st2 = Some st'" by blast
    with v Some t 2 show ?thesis by (simp add: trace_calls_Cons)
  qed
qed

lemma trace_returns:
  "src \<in> node_ids st \<Longrightarrow>
   card ((set (trace_keys p) \<union> {cf @ '':'' @ fn}) - set (processedFunctions st)) < fuel \<Longrightarrow>
   \<exists>st'. traceFunctionCalls fuel other p cf fn src st = Some st'"
proof (induction fuel arbitrary: cf fn src st)
  case 0
  then show ?case by simp
next
  case (Suc fuel)
  let ?key = "cf @ '':'' @ fn"
  let ?st1 = "st\<lparr>processedFunctions := processedFunctions st @ [?key]\<rparr>"
  show ?case
  proof (cases "?key \<in> set (processedFunctions st)")
    case True
    then show ?thesis by (simp add: traceFunctionCalls_Suc)
  next
    case False
    show ?thesis
    proof (cases "readFileSync p (join (proj_path p) cf)")
      case None
      with False show ?thesis by (simp add: traceFunctionCalls_Suc)
    next
      case (Some content)
      have fin: "finite ((set (trace_keys p) \<union> {?key}) - set (processedFunctions st))" by simp
      from False have in_it: "?key \<in> (set (trace_keys p) \<union> {?key}) - set (processedFunctions st)"
        by simp
      have "set (trace_keys p) - set (processedFunctions ?st1)
          \<subseteq> ((set (trace_keys p) \<union> {?key}) - set (processedFunctions st)) - {?key}" by auto
      then have "card (set (trace_keys p) - set (processedFunctions ?st1))
          \<le> card (((set (trace_keys p) \<union> {?key}) - set (processedFunctions st)) - {?key})"
        by (intro card_mono) auto
      also have "\<dots> < card ((set (trace_keys p) \<union> {?key}) - set (processedFunctions st))"
        using fin in_it by (intro card_Diff1_less)
      finally have less: "card (set (trace_keys p) - set (processedFunctions ?st1)) < fuel"
        using Suc.prems(2) by simp
      from Suc.prems(1) have src: "src \<in> node_ids ?st1" by (simp add: node_ids_def)
      from read_readable[OF Some] have
        names: "c_functionName ` set (extractFunctionCallsFromFunction other content fn)
          \<subseteq> set (callee_names p)" by (auto dest: extract_names)
      have "\<exists>st'. trace_calls fuel other p src
          (extractFunctionCallsFromFunction other content fn) ?st1 = Some st'"
        using src names less by (rule trace_calls_returns_aux[rotated]) (rule Suc.IH)
      with False Some show ?thesis by (simp add: traceFunctionCalls_Suc)
    qed
  qed
qed

lemma traceCompleteDataFlow_start:
  "traceCompleteDataFlow fuel other p targetRoute =
     map_option (\<lambda>st. \<lparr>g_nodes = nodes st, g_edges = edges st\<rparr>)
       (traceFunctionCalls fuel other p (r_handlerFile targetRoute) (r_handler targetRoute)
          (''handler-'' @ r_handler targetRoute) (trace_start targetRoute))"
  by (simp add: traceCompleteDataFlow_def traceHandlerFunction_def trace_start_def Let_def
      split: option.splits)

lemma start_source: "''handler-'' @ r_handler targetRoute \<in> node_ids (trace_start targetRoute)"
  by (simp add: node_ids_def trace_start_def)

lemma start_closed: "closed_edges (trace_start targetRoute)"
  by (simp add: closed_edges_def node_ids_def trace_start_def)

lemma start_distinct: "distinct (map name_kind (nodes (trace_start targetRoute)))"
  by (simp add: name_kind_def trace_start_def route_node_def)

lemma trace_complete_returns:
  "\<exists>st. \<forall>fuel \<ge> Suc (Suc (length (trace_keys p))).
     traceFunctionCalls fuel other p (r_handlerFile targetRoute) (r_handler targetRoute)
       (''handler-'' @ r_handler targetRoute) (trace_start targetRoute) = Some st"
proof -
  let ?key = "r_handlerFile targetRoute @ '':'' @ r_handler targetRoute"
  have "card (set (trace_keys p) \<union> {?key}) \<le> Suc (card (set (trace_keys p)))"
    by (simp add: card_insert_if)
  also have "\<dots> \<le> Suc (length (trace_keys p))" by (simp add: card_length)
  finally have "card ((set (trace_keys p) \<union> {?key})
      - set (processedFunctions (trace_start targetRoute))) < Suc (Suc (length (trace_keys p)))"
    by (simp add: trace_start_def)
  from trace_returns[OF start_source this] obtain st where
    "traceFunctionCalls (Suc (Suc (length (trace_keys p)))) other p (r_handlerFile targetRoute)
       (r_handler targetRoute) (''handler-'' @ r_handler targetRoute) (trace_start targetRoute)
       = Some st" by blast
  then have "\<forall>fuel \<ge> Suc (Suc (length (trace_keys p))).
     traceFunctionCalls fuel other p (r_handlerFile targetRoute) (r_handler targetRoute)
       (''handler-'' @ r_handler targetRoute) (trace_start targetRoute) = Some st"
    by (auto intro: trace_fuel_mono)
  then show ?thesis by blast
qed

lemma trace_same_result:
  assumes "traceFunctionCalls fuel other p cf fn src st = Some a"
    and "traceFunctionCalls fuel' other p cf fn src st = Some b"
  shows "a = b"
proof -
  from assms(1) have "traceFunctionCalls (max fuel fuel') other p cf fn src st = Some a"
    by (rule trace_fuel_mono) simp
  moreover from assms(2) have "traceFunctionCalls (max fuel fuel') other p cf fn src st = Some b"
    by (rule trace_fuel_mono) simp
  ultimately show ?thesis by simp
qed


lemma trace_adds_key:
  assumes "traceFunctionCalls fuel other p cf fn src st = Some st'" and "src \<in> node_ids st"
  shows "cf @ '':'' @ fn \<in> set (processedFunctions st')"
proof (cases fuel)
  case 0
  with assms show ?thesis by simp
next
  case (Suc k)
  let ?st1 = "st\<lparr>processedFunctions := processedFunctions st @ [cf @ '':'' @ fn]\<rparr>"
  show ?thesis
  proof (cases "cf @ '':'' @ fn \<in> set (processedFunctions st)")
    case True
    with assms Suc show ?thesis by (simp add: traceFunctionCalls_Suc)
  next
    case False
    show ?thesis
    proof (cases "readFileSync p (join (proj_path p) cf)")
      case None
      with False assms Suc show ?thesis by (auto simp: traceFunctionCalls_Suc)
    next
      case (Some content)
      with False assms Suc have
        c: "trace_calls k other p src (extractFunctionCallsFromFunction other content fn) ?st1
          = Some st'" by (simp add: traceFunctionCalls_Suc)
      from assms(2) have "src \<in> node_ids ?st1" by (simp add: node_ids_def)
      from steps_grow[OF trace_calls_steps[OF this c]] show ?thesis by auto
    qed
  qed
qed

lemma trace_edges:
  assumes run: "traceFunctionCalls fuel other p cf fn src st = Some st'"
    and src: "src \<in> node_ids st"
    and new: "cf @ '':'' @ fn \<notin> set (processedFunctions st)"
    and content: "readFileSync p (join (proj_path p) cf) = Some content"
    and call: "call \<in> set (extractFunctionCallsFromFunction other content fn)"
  shows "\<exists>e \<in> set (edges st'). e_source e = src \<and>
     (\<exists>n \<in> set (nodes st'). n_id n = e_target e \<and>
        name_kind n = (c_functionName call,
          determineNodeType (c_functionName call) (c_context call)) \<and>
        (distinct (map name_kind (nodes st)) \<longrightarrow>
           (\<forall>m \<in> set (nodes st). name_kind m = name_kind n \<longrightarrow> m = n)))"
proof (cases fuel)
  case 0
  with run show ?thesis by simp
next
  case (Suc k)
  let ?st1 = "st\<lparr>processedFunctions := processedFunctions st @ [cf @ '':'' @ fn]\<rparr>"
  from run Suc new content have
    c: "trace_calls k other p src (extractFunctionCallsFromFunction other content fn) ?st1
      = Some st'" by (simp add: traceFunctionCalls_Suc)
  from src have s1: "src \<in> node_ids ?st1" by (simp add: node_ids_def)
  from trace_calls_edges[OF s1 c call] obtain e n where
    e: "e \<in> set (edges st')" "e_source e = src" "n \<in> set (nodes st')" "n_id n = e_target e"
      "n_name n = c_functionName call"
      "n_type n = determineNodeType (c_functionName call) (c_context call)" by blast
  have "\<forall>m \<in> set (nodes st). name_kind m = name_kind n \<longrightarrow> m = n"
    if d: "distinct (map name_kind (nodes st))"
  proof -
    from trace_steps[OF src run] have steps: "rtranclp (trace_step other p) st st'" .
    from steps_distinct[OF steps d] have "inj_on name_kind (set (nodes st'))"
      by (simp add: distinct_map)
    moreover from steps_grow[OF steps] have "set (nodes st) \<subseteq> set (nodes st')"
      by (auto dest: set_mono_prefix)
    ultimately show ?thesis using e(3) by (auto dest: inj_onD)
  qed
  then have k: "distinct (map name_kind (nodes st)) \<longrightarrow>
      (\<forall>m \<in> set (nodes st). name_kind m = name_kind n \<longrightarrow> m = n)" by blast
  from e(5,6) have nk: "name_kind n = (c_functionName call,
      determineNodeType (c_functionName call) (c_context call))" by (simp add: name_kind_def)
  from e(3,4) nk k have "\<exists>n \<in> set (nodes st'). n_id n = e_target e \<and>
        name_kind n = (c_functionName call,
          determineNodeType (c_functionName call) (c_context call)) \<and>
        (distinct (map name_kind (nodes st)) \<longrightarrow>
           (\<forall>m \<in> set (nodes st). name_kind m = name_kind n \<longrightarrow> m = n))" by blast
  with e(1,2) show ?thesis by blast
qed


section \<open>Claims about data-flow tracing\<close>

text \<open>
  Claim C10. \<open>traceCompleteDataFlow\<close> returns for every route, and the graph returned is not
  empty and is closed: its first node is the route node, whose identifier is \<open>route-\<close>
  followed by the identifier of the route, and the source and the target of every edge are
  identifiers of nodes of the graph.
\<close>

theorem flow_graph_closed:
  "\<exists>fuel g. (\<forall>fuel' \<ge> fuel. traceCompleteDataFlow fuel' other p targetRoute = Some g) \<and>
     (\<forall>fuel'. traceCompleteDataFlow fuel' other p targetRoute \<in> {None, Some g}) \<and>
     g_nodes g \<noteq> [] \<and> hd (g_nodes g) = route_node targetRoute \<and>
     n_id (route_node targetRoute) = ''route-'' @ r_id targetRoute \<and>
     (\<forall>e \<in> set (g_edges g).
        e_source e \<in> n_id ` set (g_nodes g) \<and> e_target e \<in> n_id ` set (g_nodes g))"
proof -
  let ?run = "\<lambda>fuel. traceFunctionCalls fuel other p (r_handlerFile targetRoute)
    (r_handler targetRoute) (''handler-'' @ r_handler targetRoute) (trace_start targetRoute)"
  let ?fuel = "Suc (Suc (length (trace_keys p)))"
  from trace_complete_returns[of p other targetRoute] obtain st where
    st: "\<forall>fuel \<ge> ?fuel. ?run fuel = Some st" by blast
  let ?g = "\<lparr>g_nodes = nodes st, g_edges = edges st\<rparr>"
  from st have run: "?run ?fuel = Some st" by simp
  have a: "\<forall>fuel' \<ge> ?fuel. traceCompleteDataFlow fuel' other p targetRoute = Some ?g"
    using st by (simp add: traceCompleteDataFlow_start)
  have b: "\<forall>fuel'. traceCompleteDataFlow fuel' other p targetRoute \<in> {None, Some ?g}"
  proof
    fix fuel'
    show "traceCompleteDataFlow fuel' other p targetRoute \<in> {None, Some ?g}"
    proof (cases "?run fuel'")
      case None
      then show ?thesis by (simp add: traceCompleteDataFlow_start)
    next
      case (Some st')
      from trace_same_result[OF Some run] Some show ?thesis
        by (simp add: traceCompleteDataFlow_start)
    qed
  qed
  from trace_steps[OF start_source run]
  have steps: "rtranclp (trace_step other p) (trace_start targetRoute) st" .
  from steps_grow[OF steps] have "prefix (nodes (trace_start targetRoute)) (nodes st)" by simp
  then obtain more where "nodes st = nodes (trace_start targetRoute) @ more"
    by (auto simp: prefix_def)
  then have c: "g_nodes ?g \<noteq> []" "hd (g_nodes ?g) = route_node targetRoute"
    by (simp_all add: trace_start_def)
  have d: "n_id (route_node targetRoute) = ''route-'' @ r_id targetRoute"
    by (simp add: route_node_def)
  from steps_closed[OF steps start_closed]
  have e: "\<forall>e \<in> set (g_edges ?g).
        e_source e \<in> n_id ` set (g_nodes ?g) \<and> e_target e \<in> n_id ` set (g_nodes ?g)"
    by (simp add: closed_edges_def node_ids_def)
  from a b c d e show ?thesis by blast
qed

theorem flow_graph_closed_witness:
  "traceCompleteDataFlow 4 no_other c7_inner c7_inner_route = Some c7_inner_graph \<and>
   hd (g_nodes c7_inner_graph) = route_node c7_inner_route \<and>
   list_all (\<lambda>e. e_source e \<in> n_id ` set (g_nodes c7_inner_graph) \<and>
                 e_target e \<in> n_id ` set (g_nodes c7_inner_graph)) (g_edges c7_inner_graph)"
proof -
  have run: "traceCompleteDataFlow 4 no_other c7_inner c7_inner_route = Some c7_inner_graph"
    by code_simp
  from flow_graph_closed[of no_other c7_inner c7_inner_route] obtain g where
    g: "\<forall>fuel'. traceCompleteDataFlow fuel' no_other c7_inner c7_inner_route \<in> {None, Some g}"
      "hd (g_nodes g) = route_node c7_inner_route"
      "\<forall>e \<in> set (g_edges g).
        e_source e \<in> n_id ` set (g_nodes g) \<and> e_target e \<in> n_id ` set (g_nodes g)"
    by blast
  from g(1) run have "g = c7_inner_graph" by (metis insert_iff option.distinct(1) option.inject singletonD)
  with g(2,3) run show ?thesis by (simp only: list_all_iff)
qed

text \<open>
  What holds of the tracer. It terminates: \<open>traceCompleteDataFlow\<close> returns for every
  route, and so does every call of \<open>traceFunctionCalls\<close> whose source node is in the graph,
  the recursion being bounded by the keys \<open>file:function\<close> in \<open>processedFunctions\<close>. Such a
  call changes nothing when its key is in the set. Otherwise it notes the key and only
  appends nodes and edges, nodes stay distinct by name and kind, and when the file can be
  read, each call found in the body of the function has an edge from the source node to a
  node with the name of the callee and the kind determined for the call: the node that had
  this name and kind before, if there was one. No two nodes of the graph returned have the
  same name and kind.
\<close>

lemma tracing_returns_nodes_by_name_and_kind:
  "(\<exists>fuel g. \<forall>fuel' \<ge> fuel. traceCompleteDataFlow fuel' other p targetRoute = Some g) \<and>
   (\<forall>fuel g. traceCompleteDataFlow fuel other p targetRoute = Some g \<longrightarrow>
      distinct (map name_kind (g_nodes g))) \<and>
   (\<forall>currentFile functionName sourceNodeId st. sourceNodeId \<in> node_ids st \<longrightarrow>
      (\<exists>fuel st'. \<forall>fuel' \<ge> fuel.
         traceFunctionCalls fuel' other p currentFile functionName sourceNodeId st = Some st')) \<and>
   (\<forall>fuel currentFile functionName sourceNodeId st st'.
      sourceNodeId \<in> node_ids st \<longrightarrow>
      traceFunctionCalls fuel other p currentFile functionName sourceNodeId st = Some st' \<longrightarrow>
      (currentFile @ '':'' @ functionName \<in> set (processedFunctions st) \<longrightarrow> st' = st) \<and>
      (currentFile @ '':'' @ functionName \<notin> set (processedFunctions st) \<longrightarrow>
         currentFile @ '':'' @ functionName \<in> set (processedFunctions st') \<and>
         prefix (nodes st) (nodes st') \<and> prefix (edges st) (edges st') \<and>
         (distinct (map name_kind (nodes st)) \<longrightarrow> distinct (map name_kind (nodes st'))) \<and>
         (\<forall>content call.
            readFileSync p (join (proj_path p) currentFile) = Some content \<longrightarrow>
            call \<in> set (extractFunctionCallsFromFunction other content functionName) \<longrightarrow>
            (\<exists>e \<in> set (edges st'). e_source e = sourceNodeId \<and>
               (\<exists>n \<in> set (nodes st'). n_id n = e_target e \<and>
                  name_kind n = (c_functionName call,
                    determineNodeType (c_functionName call) (c_context call)) \<and>
                  (distinct (map name_kind (nodes st)) \<longrightarrow>
                     (\<forall>m \<in> set (nodes st). name_kind m = name_kind n \<longrightarrow> m = n)))))))"
proof (intro conjI allI impI)
  from trace_complete_returns[of p other targetRoute] obtain st where
    "\<forall>fuel \<ge> Suc (Suc (length (trace_keys p))).
       traceFunctionCalls fuel other p (r_handlerFile targetRoute) (r_handler targetRoute)
         (''handler-'' @ r_handler targetRoute) (trace_start targetRoute) = Some st" by blast
  then have "\<forall>fuel' \<ge> Suc (Suc (length (trace_keys p))).
      traceCompleteDataFlow fuel' other p targetRoute
        = Some \<lparr>g_nodes = nodes st, g_edges = edges st\<rparr>"
    by (simp add: traceCompleteDataFlow_start)
  then show "\<exists>fuel g. \<forall>fuel' \<ge> fuel. traceCompleteDataFlow fuel' other p targetRoute = Some g"
    by blast
next
  fix fuel g
  assume "traceCompleteDataFlow fuel other p targetRoute = Some g"
  then obtain st where
    run: "traceFunctionCalls fuel other p (r_handlerFile targetRoute) (r_handler targetRoute)
         (''handler-'' @ r_handler targetRoute) (trace_start targetRoute) = Some st"
    and g: "g = \<lparr>g_nodes = nodes st, g_edges = edges st\<rparr>"
    by (auto simp: traceCompleteDataFlow_start)
  from steps_distinct[OF trace_steps[OF start_source run] start_distinct] g
  show "distinct (map name_kind (g_nodes g))" by simp
next
  fix currentFile functionName sourceNodeId and st :: trace_state
  assume src: "sourceNodeId \<in> node_ids st"
  let ?fuel = "Suc (card ((set (trace_keys p) \<union> {currentFile @ '':'' @ functionName})
      - set (processedFunctions st)))"
  from trace_returns[OF src, of p currentFile functionName ?fuel other] obtain st' where
    "traceFunctionCalls ?fuel other p currentFile functionName sourceNodeId st = Some st'"
    by auto
  then have "\<forall>fuel' \<ge> ?fuel.
      traceFunctionCalls fuel' other p currentFile functionName sourceNodeId st = Some st'"
    by (auto intro: trace_fuel_mono)
  then show "\<exists>fuel st'. \<forall>fuel' \<ge> fuel.
      traceFunctionCalls fuel' other p currentFile functionName sourceNodeId st = Some st'"
    by blast
next
  fix fuel currentFile functionName sourceNodeId and st st' :: trace_state
  assume "traceFunctionCalls fuel other p currentFile functionName sourceNodeId st = Some st'"
    and "currentFile @ '':'' @ functionName \<in> set (processedFunctions st)"
  then show "st' = st" by (cases fuel) (simp_all add: traceFunctionCalls_Suc)
next
  fix fuel currentFile functionName sourceNodeId and st st' :: trace_state
  assume src: "sourceNodeId \<in> node_ids st"
    and run: "traceFunctionCalls fuel other p currentFile functionName sourceNodeId st = Some st'"
  from run src show "currentFile @ '':'' @ functionName \<in> set (processedFunctions st')"
    by (rule trace_adds_key)
  from steps_grow[OF trace_steps[OF src run]]
  show "prefix (nodes st) (nodes st')" and "prefix (edges st) (edges st')" by simp_all
  {
    assume "distinct (map name_kind (nodes st))"
    with trace_steps[OF src run] show "distinct (map name_kind (nodes st'))"
      by (rule steps_distinct)
  }
  {
    fix content call
    assume new: "currentFile @ '':'' @ functionName \<notin> set (processedFunctions st)"
      and content: "readFileSync p (join (proj_path p) currentFile) = Some content"
      and call: "call \<in> set (extractFunctionCallsFromFunction other content functionName)"
    from trace_edges[OF run src new content call]
    show "\<exists>e \<in> set (edges st'). e_source e = sourceNodeId \<and>
               (\<exists>n \<in> set (nodes st'). n_id n = e_target e \<and>
                  name_kind n = (c_functionName call,
                    determineNodeType (c_functionName call) (c_context call)) \<and>
                  (distinct (map name_kind (nodes st)) \<longrightarrow>
                     (\<forall>m \<in> set (nodes st). name_kind m = name_kind n \<longrightarrow> m = n)))" .
  }
qed


lemma tracing_returns_nodes_by_name_and_kind_example:
  "traceCompleteDataFlow 4 no_other c7_inner c7_inner_route = Some c7_inner_graph \<and>
   distinct (map name_kind (g_nodes c7_inner_graph)) \<and>
   traceFunctionCalls 4 no_other c7_inner ''main.go'' ''H'' ''handler-H''
     (trace_start c7_inner_route) = Some c7_inner_final \<and>
   (\<exists>e \<in> set (edges c7_inner_final). e_source e = ''handler-H'' \<and>
      (\<exists>n \<in> set (nodes c7_inner_final). n_id n = e_target e \<and> name_kind n = (''A'', Service)))"
proof -
  let ?call = "\<lparr>c_functionName = ''A'', c_context = ''A()'', c_line = 1, c_transformation = None\<rparr>"
  note t = tracing_returns_nodes_by_name_and_kind[of no_other c7_inner c7_inner_route]
  have run: "traceCompleteDataFlow 4 no_other c7_inner c7_inner_route = Some c7_inner_graph"
    by code_simp
  with t have d: "distinct (map name_kind (g_nodes c7_inner_graph))" by blast
  have r: "traceFunctionCalls 4 no_other c7_inner ''main.go'' ''H'' ''handler-H''
     (trace_start c7_inner_route) = Some c7_inner_final" by code_simp
  have 1: "''handler-H'' \<in> node_ids (trace_start c7_inner_route)"
    by (simp add: node_ids_def trace_start_def c7_inner_route_def)
  have 2: "''main.go'' @ '':'' @ ''H'' \<notin> set (processedFunctions (trace_start c7_inner_route))"
    by (simp add: trace_start_def)
  have 3: "readFileSync c7_inner (join (proj_path c7_inner) ''main.go'') = Some c7_inner_text"
    by code_simp
  have 4: "extractFunctionCallsFromFunction no_other c7_inner_text ''H'' = [?call]" by code_simp
  have 5: "determineNodeType ''A'' ''A()'' = Service" by code_simp
  from t 1 r 2 3 have "\<forall>call. call \<in> set (extractFunctionCallsFromFunction no_other c7_inner_text ''H'') \<longrightarrow>
            (\<exists>e \<in> set (edges c7_inner_final). e_source e = ''handler-H'' \<and>
               (\<exists>n \<in> set (nodes c7_inner_final). n_id n = e_target e \<and>
                  name_kind n = (c_functionName call,
                    determineNodeType (c_functionName call) (c_context call))))"
    by blast
  with 4 5 have "\<exists>e \<in> set (edges c7_inner_final). e_source e = ''handler-H'' \<and>
      (\<exists>n \<in> set (nodes c7_inner_final). n_id n = e_target e \<and> name_kind n = (''A'', Service))"
    by simp
  with run d r show ?thesis by blast
qed



end
